theory Spec2Isabelle
  imports Main "HOL-Library.Word"
begin

unbundle bit_operations_syntax

section \<open>SD card FAT32 root directory reader (src/main.c)\<close>

text \<open>
  The program runs on an ATmega4809 and is compiled with avr-gcc: \<open>uint8_t\<close>,
  \<open>uint16_t\<close> and \<open>uint32_t\<close> are words of 8, 16 and 32 bits, and \<open>int\<close> has 16 bits.
\<close>

type_synonym u8 = "8 word"
type_synonym u16 = "16 word"
type_synonym u32 = "32 word"

subsection \<open>The hardware the program talks to\<close>

text \<open>
  The program touches three pieces of hardware: the chip-select pin (\<open>SD_CS_LOW\<close>,
  \<open>SD_CS_HIGH\<close>), the SPI data register (\<open>spi_transfer\<close>) and the USART data register
  (\<open>usart0_putc\<close>). Every such access is logged. The card's side of the bus is the
  sequence \<open>miso\<close>: the byte the card shifts back during the \<open>n\<close>-th exchange since
  power-up. All theorems quantify over this sequence, so they hold for whatever a card
  answers. The two busy-waits on a peripheral status flag (\<open>SPI_IF\<close>, \<open>DREIF\<close>) belong
  to the transport primitive, which the specification takes as given: one exchange
  sends a byte and returns a byte.
\<close>

datatype bus_event = CS_Low | CS_High | Xfer u8

record world =
  miso :: "nat \<Rightarrow> u8"
  clock :: nat
  bus :: "bus_event list"
  uart :: "u8 list"

definition SECTOR_SIZE :: nat where
  "SECTOR_SIZE = 512"

definition SD_CS_LOW :: "world \<Rightarrow> world" where
  "SD_CS_LOW w = w\<lparr>bus := bus w @ [CS_Low]\<rparr>"

definition SD_CS_HIGH :: "world \<Rightarrow> world" where
  "SD_CS_HIGH w = w\<lparr>bus := bus w @ [CS_High]\<rparr>"

subsection \<open>USART output\<close>

definition usart0_putc :: "u8 \<Rightarrow> world \<Rightarrow> world" where
  "usart0_putc c w = w\<lparr>uart := uart w @ [c]\<rparr>"

text \<open>
  A C string is the list of the bytes of its array, terminator included: \<open>cstr\<close> of
  the literal's text, with \<open>crlf\<close> for the escape \<^verbatim>\<open>\r\n\<close>. \<open>usart0_puts\<close> sends bytes
  up to the first zero byte.
\<close>

definition lit :: "string \<Rightarrow> u8 list" where
  "lit s = map (\<lambda>c. of_nat (of_char c)) s"

definition cstr :: "string \<Rightarrow> u8 list" where
  "cstr s = lit s @ [0]"

definition crlf :: "u8 list" where
  "crlf = [0x0D, 0x0A]"

fun usart0_puts :: "u8 list \<Rightarrow> world \<Rightarrow> world" where
  "usart0_puts [] w = w"
| "usart0_puts (c # str) w = (if c = 0 then w else usart0_puts str (usart0_putc c w))"

definition usart0_print_hex :: "u8 \<Rightarrow> world \<Rightarrow> world" where
  "usart0_print_hex v w =
     (let hex = cstr ''0123456789ABCDEF'';
          w1 = usart0_putc (hex ! unat (drop_bit 4 v AND 0xF)) w
      in usart0_putc (hex ! unat (v AND 0xF)) w1)"

subsection \<open>SPI\<close>

definition spi_transfer :: "u8 \<Rightarrow> world \<Rightarrow> u8 \<times> world" where
  "spi_transfer data w =
     (miso w (clock w), w\<lparr>clock := clock w + 1, bus := bus w @ [Xfer data]\<rparr>)"

text \<open>\<open>for (uint8_t i = 0; i < n; i++) spi_transfer(0xFF);\<close>, from the value of \<open>i\<close> on.\<close>

function spi_send_dummy_from :: "u8 \<Rightarrow> u8 \<Rightarrow> world \<Rightarrow> world" where
  "spi_send_dummy_from i n w =
     (if i < n then spi_send_dummy_from (i + 1) n (snd (spi_transfer 0xFF w)) else w)"
  by pat_completeness auto
termination
proof (relation "measure (\<lambda>(i, n, w). unat n - unat i)")
  fix i n :: u8 and w :: world
  assume "i < n"
  then have lt: "unat i < unat n"
    by (simp add: word_less_nat_alt)
  moreover have "unat n < 256"
    using unsigned_less [of n] by simp
  ultimately have "unat (i + 1) = unat i + 1"
    by (simp add: unat_word_ariths)
  with lt show "((i + 1, n, snd (spi_transfer 0xFF w)), i, n, w)
      \<in> measure (\<lambda>(i, n, w). unat n - unat i)"
    by simp
qed simp

definition spi_send_dummy :: "u8 \<Rightarrow> world \<Rightarrow> world" where
  "spi_send_dummy n w = spi_send_dummy_from 0 n w"

subsection \<open>SD card protocol\<close>

text \<open>
  The response loop of \<open>sd_send_cmd\<close>: \<open>for (uint8_t i = 0; i < 8; i++)\<close>, from the
  value of \<open>i\<close> on, with the current value of \<open>res\<close>.
\<close>

function sd_wait_response :: "nat \<Rightarrow> u8 \<Rightarrow> world \<Rightarrow> u8 \<times> world" where
  "sd_wait_response i res w =
     (if i < 8 then
        (case spi_transfer 0xFF w of (res', w') \<Rightarrow>
           if res' AND 0x80 = 0 then (res', w') else sd_wait_response (i + 1) res' w')
      else (res, w))"
  by pat_completeness auto
termination
  by (relation "measure (\<lambda>(i, res, w). 8 - i)") auto

text \<open>
  \<open>res\<close> is uninitialised before the loop; the loop body runs at least once and assigns
  it, so the initial value passed here is never returned.
\<close>

definition sd_send_cmd :: "u8 \<Rightarrow> u32 \<Rightarrow> u8 \<Rightarrow> world \<Rightarrow> u8 \<times> world" where
  "sd_send_cmd cmd arg crc w =
     (let w0 = SD_CS_LOW w;
          w1 = snd (spi_transfer (0x40 OR cmd) w0);
          w2 = snd (spi_transfer (ucast (drop_bit 24 arg)) w1);
          w3 = snd (spi_transfer (ucast (drop_bit 16 arg)) w2);
          w4 = snd (spi_transfer (ucast (drop_bit 8 arg)) w3);
          w5 = snd (spi_transfer (ucast arg) w4);
          w6 = snd (spi_transfer crc w5)
      in sd_wait_response 0 0xFF w6)"

text \<open>
  The ACMD41 loop of \<open>sd_init\<close>:
  \<^verbatim>\<open>do { sd_send_cmd(55, ...); if (sd_send_cmd(41, ...) == 0x00) break; } while (--timeout);\<close>
  It returns the final value of \<open>timeout\<close>.
\<close>

function sd_init_acmd41 :: "u16 \<Rightarrow> world \<Rightarrow> u16 \<times> world" where
  "sd_init_acmd41 timeout w =
     (case sd_send_cmd 55 0 0x65 w of (r55, w1) \<Rightarrow>
      case sd_send_cmd 41 0x40000000 0x77 w1 of (r41, w2) \<Rightarrow>
        if r41 = 0x00 then (timeout, w2)
        else if timeout - 1 \<noteq> 0 then sd_init_acmd41 (timeout - 1) w2
        else (timeout - 1, w2))"
  by pat_completeness auto
termination
proof (relation "measure (\<lambda>(timeout, w). unat (timeout - 1))")
  fix timeout :: u16 and w w2 :: world
  have dec: "unat (x - 1) < unat x" if "x \<noteq> 0" for x :: u16
    using that by (simp add: unat_minus_one unat_gt_0)
  assume "timeout - 1 \<noteq> 0"
  then have "unat (timeout - 1 - 1) < unat (timeout - 1)"
    by (rule dec)
  then show "((timeout - 1, w2), timeout, w) \<in> measure (\<lambda>(timeout, w). unat (timeout - 1))"
    by simp
qed simp

definition sd_init :: "world \<Rightarrow> u8 \<times> world" where
  "sd_init w =
     (let w0 = spi_send_dummy 10 (SD_CS_HIGH w) in
      case sd_send_cmd 0 0 0x95 w0 of (r0, w1) \<Rightarrow>
      if r0 \<noteq> 0x01 then (0, w1) else
      case sd_send_cmd 8 0x1AA 0x87 w1 of (r8, w2) \<Rightarrow>
      if r8 \<noteq> 0x01 then (0, w2) else
      let w3 = snd (spi_transfer 0xFF (snd (spi_transfer 0xFF
                 (snd (spi_transfer 0xFF (snd (spi_transfer 0xFF w2))))))) in
      case sd_init_acmd41 0xFFFF w3 of (timeout, w4) \<Rightarrow>
      if timeout = 0 then (0, w4) else
      case sd_send_cmd 58 0 0xFD w4 of (r58, w5) \<Rightarrow>
      if r58 \<noteq> 0x00 then (0, w5) else
      let w6 = snd (spi_transfer 0xFF (snd (spi_transfer 0xFF
                 (snd (spi_transfer 0xFF (snd (spi_transfer 0xFF w5)))))));
          w7 = SD_CS_HIGH w6;
          w8 = snd (spi_transfer 0xFF w7)
      in (1, w8))"

text \<open>
  The data-token loop of \<open>sd_read_sector\<close>:
  \<^verbatim>\<open>do { token = spi_transfer(0xFF); if (token == 0xFE) break; } while (--t);\<close>
  It returns the final value of \<open>t\<close>.
\<close>

function sd_read_token :: "u16 \<Rightarrow> world \<Rightarrow> u16 \<times> world" where
  "sd_read_token t w =
     (case spi_transfer 0xFF w of (token, w1) \<Rightarrow>
        if token = 0xFE then (t, w1)
        else if t - 1 \<noteq> 0 then sd_read_token (t - 1) w1
        else (t - 1, w1))"
  by pat_completeness auto
termination
proof (relation "measure (\<lambda>(t, w). unat (t - 1))")
  fix t :: u16 and w w1 :: world
  have dec: "unat (x - 1) < unat x" if "x \<noteq> 0" for x :: u16
    using that by (simp add: unat_minus_one unat_gt_0)
  assume "t - 1 \<noteq> 0"
  then have "unat (t - 1 - 1) < unat (t - 1)"
    by (rule dec)
  then show "((t - 1, w1), t, w) \<in> measure (\<lambda>(t, w). unat (t - 1))"
    by simp
qed simp

text \<open>
  \<^verbatim>\<open>for (uint16_t i = 0; i < SECTOR_SIZE; i++) buffer[i] = spi_transfer(0xFF);\<close>
  from the value of \<open>i\<close> on. The buffer is the caller's array of \<open>SECTOR_SIZE\<close> bytes.
\<close>

function sd_read_payload :: "nat \<Rightarrow> u8 list \<Rightarrow> world \<Rightarrow> u8 list \<times> world" where
  "sd_read_payload i buffer w =
     (if i < SECTOR_SIZE then
        (case spi_transfer 0xFF w of (b, w') \<Rightarrow> sd_read_payload (i + 1) (buffer[i := b]) w')
      else (buffer, w))"
  by pat_completeness auto
termination
  by (relation "measure (\<lambda>(i, buffer, w). SECTOR_SIZE - i)") auto

definition sd_read_sector :: "u32 \<Rightarrow> u8 list \<Rightarrow> world \<Rightarrow> u8 \<times> u8 list \<times> world" where
  "sd_read_sector sector buffer w =
     (let w0 = SD_CS_LOW w in
      case sd_send_cmd 17 sector 0xFF w0 of (r, w1) \<Rightarrow>
      if r \<noteq> 0x00 then (0, buffer, snd (spi_transfer 0xFF (SD_CS_HIGH w1))) else
      case sd_read_token 0xFFFF w1 of (t, w2) \<Rightarrow>
      if t = 0 then (0, buffer, snd (spi_transfer 0xFF (SD_CS_HIGH w2))) else
      case sd_read_payload 0 buffer w2 of (buffer', w3) \<Rightarrow>
      let w4 = snd (spi_transfer 0xFF (snd (spi_transfer 0xFF w3)));
          w5 = SD_CS_HIGH w4;
          w6 = snd (spi_transfer 0xFF w5)
      in (1, buffer', w6))"

subsection \<open>FAT32 boot sector\<close>

record fat32_info_t =
  bytes_per_sector :: u16
  sectors_per_cluster :: u8
  reserved_sector_count :: u16
  num_fats :: u8
  fat_size :: u32
  root_cluster :: u32
  fat_start :: u32
  data_start :: u32

text \<open>
  The four-byte little-endian read that the source writes out at offsets 36 and 44 of
  the boot sector, 454 of the partition table and 28 of a directory record:
  \<^verbatim>\<open>((uint32_t)p[k]) | ((uint32_t)p[k+1] << 8) | ((uint32_t)p[k+2] << 16) | ((uint32_t)p[k+3] << 24)\<close>
\<close>

definition le32 :: "u8 list \<Rightarrow> nat \<Rightarrow> u32" where
  "le32 p k =
     (ucast (p ! k) OR push_bit 8 (ucast (p ! (k + 1))) OR push_bit 16 (ucast (p ! (k + 2)))
        OR push_bit 24 (ucast (p ! (k + 3))))"

text \<open>
  Every field of \<open>*info\<close> is assigned, so the function is modelled as returning the
  structure next to its result, which is always 1. In \<open>bytes_per_sector\<close> both operands
  are \<open>uint16_t\<close> (on this target \<open>int\<close> has 16 bits, so the shift is done in
  16-bit unsigned arithmetic); in \<open>reserved_sector_count\<close> the high byte is widened to \<open>uint32_t\<close> and the
  result is narrowed to the 16-bit field on assignment; \<open>num_fats * fat_size\<close> and the
  sum are computed in \<open>uint32_t\<close>. A sector is the list of the 512 bytes of the buffer;
  all offsets read are below 512.
\<close>

definition parse_fat32_info :: "u8 list \<Rightarrow> u8 \<times> fat32_info_t" where
  "parse_fat32_info sector =
     (let bps = (ucast (sector ! 11) :: u16) OR push_bit 8 (ucast (sector ! 12) :: u16);
          spc = sector ! 13;
          rsc = (ucast ((ucast (ucast (sector ! 14) :: u16) :: u32)
                   OR push_bit 8 (ucast (sector ! 15) :: u32)) :: u16);
          nf = sector ! 16;
          fs = le32 sector 36;
          rc = le32 sector 44;
          fstart = (ucast rsc :: u32);
          dstart = fstart + (ucast nf :: u32) * fs
      in (1, \<lparr>bytes_per_sector = bps, sectors_per_cluster = spc,
               reserved_sector_count = rsc, num_fats = nf, fat_size = fs,
               root_cluster = rc, fat_start = fstart, data_start = dstart\<rparr>))"

subsection \<open>Directory output\<close>

text \<open>
  The two copy loops of \<open>print_filename\<close>:
  \<^verbatim>\<open>for (i = lo; i < hi; i++) { if (entry[i] == ' ') break; name[j++] = entry[i]; }\<close>
  from the value of \<open>i\<close> on. \<open>name\<close> holds the \<open>j\<close> bytes written so far.
\<close>

function copy_name :: "nat \<Rightarrow> nat \<Rightarrow> u8 list \<Rightarrow> u8 list \<Rightarrow> u8 list" where
  "copy_name i hi entry name =
     (if i < hi then
        (if entry ! i = 0x20 then name else copy_name (i + 1) hi entry (name @ [entry ! i]))
      else name)"
  by pat_completeness auto
termination
  by (relation "measure (\<lambda>(i, hi, entry, name). hi - i)") auto

definition print_filename :: "u8 list \<Rightarrow> world \<Rightarrow> world" where
  "print_filename entry w =
     (let name = copy_name 0 8 entry [];
          name = (if entry ! 8 \<noteq> 0x20 then copy_name 8 11 entry (name @ [0x2E]) else name)
      in usart0_puts (name @ [0]) w)"

text \<open>
  Modelled from the spec: \<open>itoa\<close> is the C library's (avr-libc, \<open>stdlib.h\<close>), not part of
  src/. It takes an \<open>int\<close>, 16 bits wide on this target, and for radix 10 writes the
  signed decimal numeral of that value, a minus sign first when negative,
  zero-terminated. The source calls it with radix 10 only, so the radix is fixed here.
  Passing a \<open>uint32_t\<close> narrows it to its low 16 bits (\<open>ucast\<close> at the call sites).
\<close>

function dec_digits :: "nat \<Rightarrow> u8 list" where
  "dec_digits n = (if n < 10 then [of_nat (48 + n)]
                   else dec_digits (n div 10) @ [of_nat (48 + n mod 10)])"
  by pat_completeness auto
termination
  by (relation "measure id") auto

definition itoa :: "16 word \<Rightarrow> u8 list" where
  "itoa val =
     (if sint val < 0 then 0x2D # dec_digits (nat (- sint val)) else dec_digits (nat (sint val)))
      @ [0]"

definition print_dir_entry :: "u8 list \<Rightarrow> world \<Rightarrow> world" where
  "print_dir_entry entry w =
     (if entry ! 0 = 0x00 \<or> entry ! 0 = 0xE5 \<or> entry ! 11 AND 0x08 \<noteq> 0 then w
      else
        let w1 = usart0_puts (cstr ''Name: '') w;
            w2 = print_filename entry w1;
            w3 = usart0_puts (cstr '' | Attr: '') w2;
            w4 = usart0_print_hex (entry ! 11) w3;
            w5 = usart0_puts (cstr '' | Size: '') w4;
            fsize = le32 entry 28;
            sizebuf = itoa (ucast fsize);
            w6 = usart0_puts sizebuf w5
        in usart0_puts (crlf @ [0]) w6)"

subsection \<open>Main routine\<close>

text \<open>
  \<^verbatim>\<open>for (uint16_t i = 0; i < SECTOR_SIZE; i += 32) print_dir_entry(&sector[i]);\<close>
  from the value of \<open>i\<close> on. The pointer \<open>&sector[i]\<close> is the buffer from offset \<open>i\<close>.
\<close>

function print_dir_entries :: "nat \<Rightarrow> u8 list \<Rightarrow> world \<Rightarrow> world" where
  "print_dir_entries i sector w =
     (if i < SECTOR_SIZE then print_dir_entries (i + 32) sector (print_dir_entry (drop i sector) w)
      else w)"
  by pat_completeness auto
termination
  by (relation "measure (\<lambda>(i, sector, w). SECTOR_SIZE - i)") (auto simp: SECTOR_SIZE_def)

text \<open>The sector of the first cluster of the root directory, as \<open>main\<close> computes it.\<close>

definition first_root_sector :: "fat32_info_t \<Rightarrow> u32" where
  "first_root_sector fat32 =
     data_start fat32 + (ucast (sectors_per_cluster fat32) :: u32) * (root_cluster fat32 - 2)"

text \<open>
  \<open>main\<close> from its first output on (\<open>usart0_init\<close> and \<open>spi_init\<close> only configure
  peripheral registers). \<open>sector\<close> is the initial content of the local buffer. Every
  path ends in \<open>while (1);\<close>: the result is the state in which the program stays.
\<close>

definition main :: "u8 list \<Rightarrow> world \<Rightarrow> world" where
  "main sector w =
     (let v0 = usart0_puts (crlf @ lit ''Initializing SD Card...'' @ crlf @ [0]) w in
      case sd_init v0 of (ok, v1) \<Rightarrow>
      if ok = 0 then usart0_puts (lit ''SD Card init failed!'' @ crlf @ [0]) v1 else
      let v2 = usart0_puts (lit ''SD Card OK.'' @ crlf @ [0]) v1 in
      case sd_read_sector 0 sector v2 of (ok, mbr, v3) \<Rightarrow>
      if ok = 0 then usart0_puts (lit ''MBR read error'' @ crlf @ [0]) v3 else
      let part_start = le32 mbr 454 in
      case sd_read_sector part_start mbr v3 of (ok, vbr, v4) \<Rightarrow>
      if ok = 0 then usart0_puts (lit ''VBR read error'' @ crlf @ [0]) v4 else
      let fat32 = snd (parse_fat32_info vbr);
          v5 = usart0_puts (cstr ''FAT32 detected. Root Cluster: '') v4;
          buf = itoa (ucast (root_cluster fat32));
          v6 = usart0_puts buf v5;
          v7 = usart0_puts (crlf @ [0]) v6
      in
      case sd_read_sector (first_root_sector fat32) vbr v7 of (ok, root, v8) \<Rightarrow>
      if ok = 0 then usart0_puts (lit ''Root dir read error'' @ crlf @ [0]) v8 else
      let v9 = usart0_puts (lit ''Root Directory:'' @ crlf @ [0]) v8
      in print_dir_entries 0 root v9)"

section \<open>Bus traces\<close>

text \<open>
  The definitions of this section are not part of the program: they describe its bus
  activity. \<open>advance es w\<close> is the state reached from \<open>w\<close> when the events \<open>es\<close> are
  added to the bus log; every SPI exchange among them consumes one response byte.
\<close>

fun xfers :: "bus_event list \<Rightarrow> nat" where
  "xfers [] = 0"
| "xfers (Xfer b # es) = Suc (xfers es)"
| "xfers (e # es) = xfers es"

definition advance :: "bus_event list \<Rightarrow> world \<Rightarrow> world" where
  "advance es w = w\<lparr>clock := clock w + xfers es, bus := bus w @ es\<rparr>"

text \<open>
  The six bytes \<open>sd_send_cmd\<close> sends for a command, and all bus events of one call when
  the response loop runs \<open>k\<close> times.
\<close>

definition cmd_frame :: "u8 \<Rightarrow> u32 \<Rightarrow> u8 \<Rightarrow> u8 list" where
  "cmd_frame cmd arg crc =
     [0x40 OR cmd, ucast (drop_bit 24 arg), ucast (drop_bit 16 arg), ucast (drop_bit 8 arg),
      ucast arg, crc]"

definition cmd_events :: "u8 \<Rightarrow> u32 \<Rightarrow> u8 \<Rightarrow> nat \<Rightarrow> bus_event list" where
  "cmd_events cmd arg crc k =
     CS_Low # map Xfer (cmd_frame cmd arg crc) @ replicate k (Xfer 0xFF)"

text \<open>
  An upper bound on the exchanges of \<open>sd_init\<close> between its ten start-up filler bytes
  and its final deassertion of chip select: CMD0, CMD8 with its four bytes, \<open>0xFFFF\<close>
  rounds of CMD55 and ACMD41, CMD58 with its four bytes, at most 14 exchanges a command.
\<close>

definition init_bound :: nat where
  "init_bound = 14 + 18 + 28 * 65535 + 18"

text \<open>
  One run of \<open>sd_init\<close> in terms of the results and final states of the commands it
  issues, whether or not it gets as far as issuing them.
\<close>

definition sd_init_run ::
  "world \<Rightarrow> u8 \<Rightarrow> world \<Rightarrow> nat \<Rightarrow> u8 \<Rightarrow> world \<Rightarrow> nat \<Rightarrow> u16 \<Rightarrow> world \<Rightarrow> bus_event list
     \<Rightarrow> nat \<Rightarrow> u8 \<Rightarrow> world \<Rightarrow> nat \<Rightarrow> bool" where
  "sd_init_run w r0 w1 k0 r8 w2 k8 t' w4 es n r58 w5 k58 \<longleftrightarrow>
    sd_init w
     = (if r0 \<noteq> 1 then (0, w1) else if r8 \<noteq> 1 then (0, w2) else if t' = 0 then (0, w4)
        else if r58 \<noteq> 0 then (0, w5)
        else (1, advance (replicate 4 (Xfer 0xFF) @ [CS_High, Xfer 0xFF]) w5))
    \<and> sd_send_cmd 0 0 0x95 (advance (CS_High # replicate 10 (Xfer 0xFF)) w) = (r0, w1)
    \<and> w1 = advance (CS_High # replicate 10 (Xfer 0xFF) @ cmd_events 0 0 0x95 k0) w
    \<and> 1 \<le> k0 \<and> k0 \<le> 8
    \<and> sd_send_cmd 8 0x1AA 0x87 w1 = (r8, w2)
    \<and> w2 = advance (cmd_events 8 0x1AA 0x87 k8) w1 \<and> 1 \<le> k8 \<and> k8 \<le> 8
    \<and> sd_init_acmd41 0xFFFF (advance (replicate 4 (Xfer 0xFF)) w2) = (t', w4)
    \<and> w4 = advance (replicate 4 (Xfer 0xFF) @ es) w2
    \<and> CS_High \<notin> set es \<and> Xfer 0x51 \<notin> set es
    \<and> count_list es CS_Low = 2 * n \<and> 1 \<le> n \<and> n \<le> 65535
    \<and> xfers es \<le> 28 * n \<and> 14 * n \<le> xfers es \<and> (t' = 0 \<longrightarrow> n = 65535)
    \<and> sd_send_cmd 58 0 0xFD w4 = (r58, w5)
    \<and> w5 = advance (cmd_events 58 0 0xFD k58) w4 \<and> 1 \<le> k58 \<and> k58 \<le> 8"

section \<open>The polling loops\<close>

text \<open>
  Not part of the program: names for the states and responses the two bounded waits
  see. One round of the ACMD41 loop issues CMD55 and then ACMD41; \<open>acmd41_round w\<close> is
  the ACMD41 response and the state after one round started in \<open>w\<close>, \<open>acmd41_after n w\<close>
  the state after \<open>n\<close> rounds, and \<open>acmd41_response n w\<close> the ACMD41 response of round
  \<open>n\<close> (counted from 0) when the rounds are run one after the other from \<open>w\<close>.
\<close>

definition acmd41_round :: "world \<Rightarrow> u8 \<times> world" where
  "acmd41_round w = sd_send_cmd 41 0x40000000 0x77 (snd (sd_send_cmd 55 0 0x65 w))"

fun acmd41_after :: "nat \<Rightarrow> world \<Rightarrow> world" where
  "acmd41_after 0 w = w"
| "acmd41_after (Suc n) w = acmd41_after n (snd (acmd41_round w))"

definition acmd41_response :: "nat \<Rightarrow> world \<Rightarrow> u8" where
  "acmd41_response n w = fst (acmd41_round (acmd41_after n w))"

text \<open>
  \<open>acmd41_entry w\<close> is the state in which \<open>sd_init\<close>, started in \<open>w\<close>, reaches its ACMD41
  loop: after the start-up filler bytes, CMD0, CMD8 and the four bytes read after CMD8.
  \<open>token_entry sector w\<close> is the state in which \<open>sd_read_sector\<close> reaches its data-token
  loop: after chip select is asserted and CMD17 has been sent and answered.
\<close>

definition acmd41_entry :: "world \<Rightarrow> world" where
  "acmd41_entry w =
     (let w0 = spi_send_dummy 10 (SD_CS_HIGH w);
          w1 = snd (sd_send_cmd 0 0 0x95 w0);
          w2 = snd (sd_send_cmd 8 0x1AA 0x87 w1)
      in snd (spi_transfer 0xFF (snd (spi_transfer 0xFF
           (snd (spi_transfer 0xFF (snd (spi_transfer 0xFF w2))))))))"

definition token_entry :: "u32 \<Rightarrow> world \<Rightarrow> world" where
  "token_entry sector w = snd (sd_send_cmd 17 sector 0xFF (SD_CS_LOW w))"

section \<open>The steps of the main routine\<close>

text \<open>
  Not part of the program: the result and state of each hardware step of \<open>main\<close>, as
  \<open>main\<close> reaches it when all earlier steps succeeded. \<open>main_init\<close> is the call of
  \<open>sd_init\<close>, \<open>main_mbr\<close> the read of sector 0, \<open>main_vbr\<close> the read of the boot sector
  and \<open>main_root\<close> the read of the root directory's first sector.
\<close>

definition main_init :: "world \<Rightarrow> u8 \<times> world" where
  "main_init w = sd_init (usart0_puts (crlf @ lit ''Initializing SD Card...'' @ crlf @ [0]) w)"

definition main_mbr :: "u8 list \<Rightarrow> world \<Rightarrow> u8 \<times> u8 list \<times> world" where
  "main_mbr sector w =
     sd_read_sector 0 sector (usart0_puts (lit ''SD Card OK.'' @ crlf @ [0]) (snd (main_init w)))"

definition main_vbr :: "u8 list \<Rightarrow> world \<Rightarrow> u8 \<times> u8 list \<times> world" where
  "main_vbr sector w =
     (case main_mbr sector w of (ok, mbr, v) \<Rightarrow> sd_read_sector (le32 mbr 454) mbr v)"

definition main_root :: "u8 list \<Rightarrow> world \<Rightarrow> u8 \<times> u8 list \<times> world" where
  "main_root sector w =
     (case main_vbr sector w of (ok, vbr, v) \<Rightarrow>
        let fat32 = snd (parse_fat32_info vbr) in
        sd_read_sector (first_root_sector fat32) vbr
          (usart0_puts (crlf @ [0])
            (usart0_puts (itoa (ucast (root_cluster fat32)))
              (usart0_puts (cstr ''FAT32 detected. Root Cluster: '') v))))"

section \<open>Directory records and decimal numerals\<close>

text \<open>
  Not part of the program: the classification of a directory record as Regular, and the
  number a string of decimal digits stands for.
\<close>

definition is_regular :: "u8 list \<Rightarrow> bool" where
  "is_regular entry \<longleftrightarrow> entry ! 0 \<noteq> 0x00 \<and> entry ! 0 \<noteq> 0xE5 \<and> entry ! 11 AND 0x08 = 0"

definition dec_value :: "u8 list \<Rightarrow> nat" where
  "dec_value cs = foldl (\<lambda>a c. 10 * a + (unat c - 48)) 0 cs"

section \<open>Example cards\<close>

text \<open>
  Concrete cards, for the examples below. \<open>idle_card\<close> answers every exchange with
  \<open>0x01\<close>, the idle-state response.
\<close>

definition idle_card :: world where
  "idle_card = \<lparr>miso = (\<lambda>n. 1), clock = 0, bus = [], uart = []\<rparr>"

text \<open>
  \<open>ready_card\<close> answers CMD0 and CMD8 with \<open>0x01\<close> at the first poll and everything else
  with \<open>0x00\<close>; \<open>silent_card\<close> answers every exchange with \<open>0x00\<close>.
\<close>

definition ready_card :: world where
  "ready_card = \<lparr>miso = (\<lambda>n. if n = 16 \<or> n = 23 then 1 else 0), clock = 0, bus = [], uart = []\<rparr>"

definition silent_card :: world where
  "silent_card = \<lparr>miso = (\<lambda>n. 0), clock = 0, bus = [], uart = []\<rparr>"

text \<open>
  \<open>mbr_card\<close> initialises and delivers sector 0, then rejects the second read command;
  \<open>vbr_card\<close> delivers two sectors and rejects the third read command.
\<close>

definition mbr_card :: world where
  "mbr_card = \<lparr>miso = (\<lambda>n. if n = 16 \<or> n = 23 \<or> n = 583 then 1 else if n = 61 then 0xFE else 0),
       clock = 0, bus = [], uart = []\<rparr>"

definition vbr_card :: world where
  "vbr_card = \<lparr>miso = (\<lambda>n. if n = 16 \<or> n = 23 \<or> n = 1106 then 1
                            else if n = 61 \<or> n = 584 then 0xFE else 0),
       clock = 0, bus = [], uart = []\<rparr>"



text \<open>
  \<open>late_card\<close> answers \<open>0x01\<close> throughout the \<open>0xFFFF\<close> rounds of the ACMD41 loop, which
  end with exchange 917517, and \<open>0x00\<close> only at exchange 917524, where the response to
  a CMD58 sent right after the loop would be read. \<open>late_token_card\<close> accepts the read
  command at the first poll (exchange 6) and sends the data token at exchange 65542,
  one exchange after the \<open>0xFFFF\<close> exchanges of the token loop; \<open>last_token_card\<close> sends
  it at exchange 65541, the last one the token loop reads.
\<close>

definition late_card :: world where
  "late_card = \<lparr>miso = (\<lambda>n. if n = 917524 then 0 else 1), clock = 0, bus = [], uart = []\<rparr>"

definition late_token_card :: world where
  "late_token_card = \<lparr>miso = (\<lambda>n. if n = 6 then 0 else if n = 65542 then 0xFE else 0xFF),
       clock = 0, bus = [], uart = []\<rparr>"

definition last_token_card :: world where
  "last_token_card = \<lparr>miso = (\<lambda>n. if n = 6 then 0 else if n = 65541 then 0xFE else 0xFF),
       clock = 0, bus = [], uart = []\<rparr>"

section \<open>Example directory blocks\<close>

text \<open>
  Two records of 32 bytes: \<open>HELLO.TXT\<close> of 10 bytes and \<open>BIG.BIN\<close> of 40000 bytes, both
  with attribute \<open>0x20\<close>. \<open>dir_after_free\<close> is a block whose slot 0 is all zero and whose
  slot 1 holds \<open>HELLO.TXT\<close>; \<open>dir_deleted\<close> is a block whose slot 0 starts with \<open>0xE5\<close>.
\<close>

definition hello_entry :: "u8 list" where
  "hello_entry = lit ''HELLO   TXT'' @ [0x20] @ replicate 16 0 @ [0x0A, 0, 0, 0]"

definition big_entry :: "u8 list" where
  "big_entry = lit ''BIG     BIN'' @ [0x20] @ replicate 16 0 @ [0x40, 0x9C, 0, 0]"

definition dir_after_free :: "u8 list" where
  "dir_after_free = replicate 32 0 @ hello_entry @ replicate 448 0"

definition dir_deleted :: "u8 list" where
  "dir_deleted = 0xE5 # replicate 511 0"

section \<open>Properties of the SPI layer\<close>

declare spi_send_dummy_from.simps [simp del] sd_wait_response.simps [simp del]
  sd_init_acmd41.simps [simp del] sd_read_token.simps [simp del]
  sd_read_payload.simps [simp del] copy_name.simps [simp del]
  print_dir_entries.simps [simp del] dec_digits.simps [simp del]

lemma xfers_append [simp]: "xfers (es @ fs) = xfers es + xfers fs"
  by (induction es rule: xfers.induct) simp_all

lemma xfers_replicate [simp]: "xfers (replicate k (Xfer b)) = k"
  by (induction k) simp_all

lemma xfers_map_Xfer [simp]: "xfers (map Xfer bs) = length bs"
  by (induction bs) simp_all

lemma xfers_le_length: "xfers es \<le> length es"
  by (induction es rule: xfers.induct) simp_all

lemma count_list_replicate_other [simp]: "e \<noteq> x \<Longrightarrow> count_list (replicate k x) e = 0"
  by (induction k) simp_all

lemma advance_Nil [simp]: "advance [] w = w"
  by (simp add: advance_def)

lemma advance_advance [simp]: "advance fs (advance es w) = advance (es @ fs) w"
  by (simp add: advance_def)

lemma advance_fields [simp]:
  "miso (advance es w) = miso w"
  "uart (advance es w) = uart w"
  "clock (advance es w) = clock w + xfers es"
  "bus (advance es w) = bus w @ es"
  by (simp_all add: advance_def)

lemma SD_CS_LOW_advance: "SD_CS_LOW w = advance [CS_Low] w"
  by (simp add: SD_CS_LOW_def advance_def)

lemma SD_CS_HIGH_advance: "SD_CS_HIGH w = advance [CS_High] w"
  by (simp add: SD_CS_HIGH_def advance_def)

lemma spi_transfer_advance: "spi_transfer d w = (miso w (clock w), advance [Xfer d] w)"
  by (simp add: spi_transfer_def advance_def)

lemma spi_send_dummy_from_advance:
  "spi_send_dummy_from i n w = advance (replicate (unat n - unat i) (Xfer 0xFF)) w"
proof (induction i n w rule: spi_send_dummy_from.induct)
  case (1 i n w)
  show ?case
  proof (cases "i < n")
    case True
    then have lt: "unat i < unat n"
      by (simp add: word_less_nat_alt)
    moreover have "unat n < 256"
      using unsigned_less [where ?'a = nat, of n] by simp
    ultimately have suc: "unat (i + 1) = unat i + 1"
      by (simp add: unat_word_ariths)
    have "unat n - unat i = Suc (unat n - unat (i + 1))"
      using lt suc by simp
    then have "replicate (unat n - unat i) (Xfer 0xFF)
        = [Xfer 0xFF] @ replicate (unat n - unat (i + 1)) (Xfer 0xFF)"
      by simp
    with True "1.IH" show ?thesis
      by (simp add: spi_send_dummy_from.simps [of i n w] spi_transfer_advance)
  next
    case False
    then have "unat n - unat i = 0"
      by (simp add: word_less_nat_alt)
    with False show ?thesis
      by (simp add: spi_send_dummy_from.simps [of i n w])
  qed
qed

lemma spi_send_dummy_advance:
  "spi_send_dummy n w = advance (replicate (unat n) (Xfer 0xFF)) w"
  by (simp add: spi_send_dummy_def spi_send_dummy_from_advance)

lemma sd_wait_response_advance:
  assumes "i < 8"
  shows "\<exists>k. 1 \<le> k \<and> k \<le> 8 - i
           \<and> sd_wait_response i res w
               = (miso w (clock w + k - 1), advance (replicate k (Xfer 0xFF)) w)
           \<and> (\<forall>j < k - 1. miso w (clock w + j) AND 0x80 \<noteq> 0)
           \<and> (k < 8 - i \<longrightarrow> miso w (clock w + k - 1) AND 0x80 = 0)"
  using assms
proof (induction i res w rule: sd_wait_response.induct)
  case (1 i res w)
  show ?case
  proof (cases "miso w (clock w) AND 0x80 = 0")
    case True
    with "1.prems" have "sd_wait_response i res w
        = (miso w (clock w + 1 - 1), advance (replicate 1 (Xfer 0xFF)) w)"
      by (simp add: sd_wait_response.simps [of i res w] spi_transfer_advance)
    with "1.prems" True show ?thesis
      by (intro exI [of _ 1]) simp
  next
    case False
    show ?thesis
    proof (cases "i + 1 < 8")
      case lt: True
      let ?w' = "advance [Xfer 0xFF] w"
      have pair: "(miso w (clock w), ?w') = spi_transfer 0xFF w"
        by (simp add: spi_transfer_advance)
      from "1.IH" [OF "1.prems" pair False lt]
      obtain k where k: "1 \<le> k" "k \<le> 8 - (i + 1)"
        "sd_wait_response (i + 1) (miso w (clock w)) ?w'
           = (miso ?w' (clock ?w' + k - 1), advance (replicate k (Xfer 0xFF)) ?w')"
        "\<forall>j < k - 1. miso ?w' (clock ?w' + j) AND 0x80 \<noteq> 0"
        "k < 8 - (i + 1) \<longrightarrow> miso ?w' (clock ?w' + k - 1) AND 0x80 = 0"
        by auto
      have step: "sd_wait_response i res w = sd_wait_response (i + 1) (miso w (clock w)) ?w'"
        using "1.prems" False
        by (simp add: sd_wait_response.simps [of i res w] spi_transfer_advance)
      have all: "\<forall>j < Suc k - 1. miso w (clock w + j) AND 0x80 \<noteq> 0"
      proof (intro allI impI)
        fix j assume "j < Suc k - 1"
        show "miso w (clock w + j) AND 0x80 \<noteq> 0"
        proof (cases j)
          case 0
          with False show ?thesis by simp
        next
          case (Suc j')
          with \<open>j < Suc k - 1\<close> k(4) show ?thesis by (auto simp: )
        qed
      qed
      show ?thesis
        using k(1,2,3,5) all step
        by (intro exI [of _ "Suc k"]) (auto simp: replicate_append_same)
    next
      case ge: False
      with "1.prems" have i7: "i = 7" by simp
      have "sd_wait_response i res w
          = (miso w (clock w + 1 - 1), advance (replicate 1 (Xfer 0xFF)) w)"
        using False i7
        by (simp add: sd_wait_response.simps [of 7 res w] sd_wait_response.simps [of 8]
            spi_transfer_advance)
      with i7 show ?thesis
        by (intro exI [of _ 1]) simp
    qed
  qed
qed

lemma cmd_events_facts [simp]:
  "xfers (cmd_events cmd arg crc k) = 6 + k"
  "CS_High \<notin> set (cmd_events cmd arg crc k)"
  "count_list (cmd_events cmd arg crc k) CS_Low = 1"
  "cmd_events cmd arg crc k \<noteq> []"
  "hd (cmd_events cmd arg crc k) = CS_Low"
  by (auto simp: cmd_events_def cmd_frame_def count_list_0_iff)

lemma sd_send_cmd_advance:
  "\<exists>k. 1 \<le> k \<and> k \<le> 8
       \<and> sd_send_cmd cmd arg crc w
           = (miso w (clock w + 6 + k - 1), advance (cmd_events cmd arg crc k) w)
       \<and> (\<forall>j < k - 1. miso w (clock w + 6 + j) AND 0x80 \<noteq> 0)
       \<and> (k < 8 \<longrightarrow> miso w (clock w + 6 + k - 1) AND 0x80 = 0)"
proof -
  let ?w6 = "advance (CS_Low # map Xfer (cmd_frame cmd arg crc)) w"
  have unfold: "sd_send_cmd cmd arg crc w = sd_wait_response 0 0xFF ?w6"
    by (simp add: sd_send_cmd_def Let_def SD_CS_LOW_advance spi_transfer_advance cmd_frame_def)
  from sd_wait_response_advance [of 0 "0xFF" ?w6]
  obtain k where k: "1 \<le> k" "k \<le> 8"
    "sd_wait_response 0 0xFF ?w6
       = (miso ?w6 (clock ?w6 + k - 1), advance (replicate k (Xfer 0xFF)) ?w6)"
    "\<forall>j < k - 1. miso ?w6 (clock ?w6 + j) AND 0x80 \<noteq> 0"
    "k < 8 \<longrightarrow> miso ?w6 (clock ?w6 + k - 1) AND 0x80 = 0"
    by auto
  have six: "clock ?w6 = clock w + 6"
    by (simp add: cmd_frame_def)
  show ?thesis
    using k unfolding unfold six
    by (intro exI [of _ k]) (simp add: cmd_events_def)
qed

lemma sd_send_cmd_cases:
  obtains k where "1 \<le> k" "k \<le> 8"
    "sd_send_cmd cmd arg crc w
       = (miso w (clock w + 6 + k - 1), advance (cmd_events cmd arg crc k) w)"
  using sd_send_cmd_advance [of cmd arg crc w] by blast

lemma u16_dec: "unat (x - 1) + 1 = unat x" if "x \<noteq> 0" for x :: u16
  using that by (simp add: unat_minus_one unat_gt_0)

lemma sd_init_acmd41_step:
  assumes "sd_send_cmd 55 0 0x65 w = (r55, w1)"
    and "sd_send_cmd 41 0x40000000 0x77 w1 = (r41, w2)"
  shows "sd_init_acmd41 t w
    = (if r41 = 0 then (t, w2)
       else if t - 1 \<noteq> 0 then sd_init_acmd41 (t - 1) w2 else (t - 1, w2))"
  by (subst sd_init_acmd41.simps) (simp add: assms)

lemma sd_init_acmd41_trace:
  "\<exists>es n. snd (sd_init_acmd41 t w) = advance es w \<and> CS_High \<notin> set es
        \<and> Xfer 0x51 \<notin> set es \<and> count_list es CS_Low = 2 * n \<and> 1 \<le> n \<and> n \<le> unat (t - 1) + 1
        \<and> xfers es \<le> 28 * n \<and> 14 * n \<le> xfers es
        \<and> (fst (sd_init_acmd41 t w) = 0 \<and> t \<noteq> 0 \<longrightarrow> n = unat t)"
proof (induction t w rule: sd_init_acmd41.induct)
  case (1 t w)
  obtain k1 where k1: "1 \<le> k1" "k1 \<le> 8"
    "sd_send_cmd 55 0 0x65 w
       = (miso w (clock w + 6 + k1 - 1), advance (cmd_events 55 0 0x65 k1) w)"
    by (rule sd_send_cmd_cases)
  let ?e1 = "cmd_events 55 0 0x65 k1"
  let ?w1 = "advance ?e1 w"
  obtain k2 where k2: "1 \<le> k2" "k2 \<le> 8"
    "sd_send_cmd 41 0x40000000 0x77 ?w1
       = (miso ?w1 (clock ?w1 + 6 + k2 - 1), advance (cmd_events 41 0x40000000 0x77 k2) ?w1)"
    by (rule sd_send_cmd_cases)
  let ?e2 = "cmd_events 41 0x40000000 0x77 k2"
  let ?r41 = "miso ?w1 (clock ?w1 + 6 + k2 - 1)"
  let ?w2 = "advance (?e1 @ ?e2) w"
  have w2: "advance ?e2 ?w1 = ?w2" by simp
  note step = sd_init_acmd41_step [OF k1(3) k2(3) [unfolded w2], of t]
  have body: "CS_High \<notin> set (?e1 @ ?e2)" "count_list (?e1 @ ?e2) CS_Low = 2"
    "xfers (?e1 @ ?e2) \<le> 28" "14 \<le> xfers (?e1 @ ?e2)"
    using k1(1,2) k2(1,2) by simp_all
  have no17: "Xfer 0x51 \<notin> set (?e1 @ ?e2)"
    by (simp add: cmd_events_def cmd_frame_def)
  consider (accept) "?r41 = 0" | (again) "?r41 \<noteq> 0" "t - 1 \<noteq> 0"
    | (exhausted) "?r41 \<noteq> 0" "t - 1 = 0"
    by blast
  then show ?case
  proof cases
    case accept
    then have res: "sd_init_acmd41 t w = (t, ?w2)"
      unfolding step by simp
    show ?thesis
      unfolding res using body no17
      by (intro exI [of _ "?e1 @ ?e2"] exI [of _ 1]) (auto simp: )
  next
    case again
    then have res: "sd_init_acmd41 t w = sd_init_acmd41 (t - 1) ?w2"
      unfolding step by simp
    from "1.IH" [OF k1(3) [symmetric] k2(3) [symmetric, unfolded w2] again]
    obtain es n where ih: "snd (sd_init_acmd41 (t - 1) ?w2) = advance es ?w2"
      "CS_High \<notin> set es" "Xfer 0x51 \<notin> set es" "count_list es CS_Low = 2 * n" "1 \<le> n" "n \<le> unat (t - 1 - 1) + 1"
      "xfers es \<le> 28 * n" "14 * n \<le> xfers es"
      "fst (sd_init_acmd41 (t - 1) ?w2) = 0 \<and> t - 1 \<noteq> 0 \<longrightarrow> n = unat (t - 1)"
      by blast
    have n1: "unat (t - 1 - 1) + 1 = unat (t - 1)"
      using again(2) by (rule u16_dec)
    have nt: "unat (t - 1) + 1 = unat t" if "t \<noteq> 0"
      using that by (rule u16_dec)
    show ?thesis
      unfolding res using ih body no17 again(2) n1 nt
      by (intro exI [of _ "(?e1 @ ?e2) @ es"] exI [of _ "Suc n"]) (auto simp: )
  next
    case exhausted
    then have res: "sd_init_acmd41 t w = (0, ?w2)"
      unfolding step by simp
    from exhausted(2) have t1: "t = 1" by simp
    show ?thesis
      unfolding res using body no17 t1
      by (intro exI [of _ "?e1 @ ?e2"] exI [of _ 1]) (auto simp: )
  qed
qed

lemma sd_init_acmd41_never_ready:
  assumes "\<And>n. miso w n \<noteq> 0"
  shows "fst (sd_init_acmd41 t w) = 0"
  using assms
proof (induction t w rule: sd_init_acmd41.induct)
  case (1 t w)
  obtain k1 where k1: "sd_send_cmd 55 0 0x65 w
       = (miso w (clock w + 6 + k1 - 1), advance (cmd_events 55 0 0x65 k1) w)"
    by (rule sd_send_cmd_cases)
  let ?w1 = "advance (cmd_events 55 0 0x65 k1) w"
  obtain k2 where k2: "sd_send_cmd 41 0x40000000 0x77 ?w1
       = (miso ?w1 (clock ?w1 + 6 + k2 - 1), advance (cmd_events 41 0x40000000 0x77 k2) ?w1)"
    by (rule sd_send_cmd_cases)
  let ?w2 = "advance (cmd_events 41 0x40000000 0x77 k2) ?w1"
  let ?r41 = "miso ?w1 (clock ?w1 + 6 + k2 - 1)"
  note step = sd_init_acmd41_step [OF k1 k2, of t]
  have r41: "?r41 \<noteq> 0"
    using "1.prems" [of "clock ?w1 + 6 + k2 - 1"] by simp
  show ?case
  proof (cases "t - 1 \<noteq> 0")
    case True
    have "fst (sd_init_acmd41 (t - 1) ?w2) = 0"
      using "1.IH" [OF k1 [symmetric] k2 [symmetric] r41 True] "1.prems" by simp
    with r41 True show ?thesis
      unfolding step by simp
  next
    case False
    with r41 show ?thesis
      unfolding step by simp
  qed
qed

lemma sd_read_token_step:
  "sd_read_token t w
    = (if miso w (clock w) = 0xFE then (t, advance [Xfer 0xFF] w)
       else if t - 1 \<noteq> 0 then sd_read_token (t - 1) (advance [Xfer 0xFF] w)
       else (t - 1, advance [Xfer 0xFF] w))"
  by (subst sd_read_token.simps) (simp add: spi_transfer_advance)

lemma sd_read_token_trace:
  "\<exists>n. 1 \<le> n \<and> n \<le> unat (t - 1) + 1
      \<and> snd (sd_read_token t w) = advance (replicate n (Xfer 0xFF)) w
      \<and> (\<forall>j < n - 1. miso w (clock w + j) \<noteq> 0xFE)
      \<and> (n < unat (t - 1) + 1 \<longrightarrow> miso w (clock w + n - 1) = 0xFE)
      \<and> (t \<noteq> 0 \<longrightarrow>
           (fst (sd_read_token t w) = 0
              \<longleftrightarrow> n = unat t \<and> miso w (clock w + n - 1) \<noteq> 0xFE))"
proof (induction t w rule: sd_read_token.induct)
  case (1 t w)
  let ?w1 = "advance [Xfer 0xFF] w"
  note step = sd_read_token_step [of t w]
  have nt: "unat (x - 1) + 1 = unat x" if "x \<noteq> 0" for x :: u16
    using that by (rule u16_dec)
  consider (found) "miso w (clock w) = 0xFE"
    | (again) "miso w (clock w) \<noteq> 0xFE" "t - 1 \<noteq> 0"
    | (exhausted) "miso w (clock w) \<noteq> 0xFE" "t - 1 = 0"
    by blast
  then show ?case
  proof cases
    case found
    then have res: "sd_read_token t w = (t, advance (replicate 1 (Xfer 0xFF)) w)"
      unfolding step by simp
    from found show ?thesis
      unfolding res by (intro exI [of _ 1]) (auto simp: unat_gt_0 nt)
  next
    case again
    then have res: "sd_read_token t w = sd_read_token (t - 1) ?w1"
      unfolding step by simp
    have pair: "(miso w (clock w), ?w1) = spi_transfer 0xFF w"
      by (simp add: spi_transfer_advance)
    from "1.IH" [OF pair again]
    obtain n where ih: "1 \<le> n" "n \<le> unat (t - 1 - 1) + 1"
      "snd (sd_read_token (t - 1) ?w1) = advance (replicate n (Xfer 0xFF)) ?w1"
      "\<forall>j < n - 1. miso ?w1 (clock ?w1 + j) \<noteq> 0xFE"
      "n < unat (t - 1 - 1) + 1 \<longrightarrow> miso ?w1 (clock ?w1 + n - 1) = 0xFE"
      "fst (sd_read_token (t - 1) ?w1) = 0
         \<longleftrightarrow> n = unat (t - 1) \<and> miso ?w1 (clock ?w1 + n - 1) \<noteq> 0xFE"
      using again(2) by blast
    have n1: "unat (t - 1 - 1) + 1 = unat (t - 1)"
      using again(2) by (rule nt)
    have all: "\<forall>j < Suc n - 1. miso w (clock w + j) \<noteq> 0xFE"
    proof (intro allI impI)
      fix j assume j: "j < Suc n - 1"
      show "miso w (clock w + j) \<noteq> 0xFE"
      proof (cases j)
        case 0
        with again(1) show ?thesis by simp
      next
        case (Suc j')
        with j ih(4) show ?thesis by auto
      qed
    qed
    have rep: "[Xfer 0xFF] @ replicate n (Xfer 0xFF) = replicate (Suc n) (Xfer 0xFF)"
      by simp
    have last: "miso ?w1 (clock ?w1 + n - 1) = miso w (clock w + Suc n - 1)"
      using ih(1) by simp
    have zero: "t \<noteq> 0 \<longrightarrow> (fst (sd_read_token (t - 1) ?w1) = 0
        \<longleftrightarrow> Suc n = unat t \<and> miso w (clock w + Suc n - 1) \<noteq> 0xFE)"
      unfolding ih(6) last using nt [of t] by auto
    have early: "Suc n < unat (t - 1) + 1 \<longrightarrow> miso w (clock w + Suc n - 1) = 0xFE"
      using ih(5) n1 unfolding last by simp
    show ?thesis
      unfolding res
      apply (intro exI [of _ "Suc n"] conjI)
      using ih(1) apply simp
      using ih(2) n1 apply simp
      using ih(3) apply (simp only: advance_advance rep)
      using all apply blast
      using early apply blast
      using zero apply blast
      done
  next
    case exhausted
    then have res: "sd_read_token t w = (0, advance (replicate 1 (Xfer 0xFF)) w)"
      unfolding step by simp
    from exhausted(2) have t1: "t = 1" by simp
    from exhausted(1) res show ?thesis
      unfolding t1 by (intro exI [of _ 1]) simp
  qed
qed

lemma sd_read_payload_trace:
  assumes "i \<le> SECTOR_SIZE" "length buffer = SECTOR_SIZE"
  shows "sd_read_payload i buffer w
    = (take i buffer @ map (\<lambda>j. miso w (clock w + j)) [0..<SECTOR_SIZE - i],
       advance (replicate (SECTOR_SIZE - i) (Xfer 0xFF)) w)"
  using assms
proof (induction i buffer w rule: sd_read_payload.induct)
  case (1 i buffer w)
  show ?case
  proof (cases "i < SECTOR_SIZE")
    case True
    let ?b = "miso w (clock w)"
    let ?w' = "advance [Xfer 0xFF] w"
    have pair: "(?b, ?w') = spi_transfer 0xFF w"
      by (simp add: spi_transfer_advance)
    have ih: "sd_read_payload (i + 1) (buffer[i := ?b]) ?w'
      = (take (i + 1) (buffer[i := ?b]) @ map (\<lambda>j. miso ?w' (clock ?w' + j)) [0..<SECTOR_SIZE - (i + 1)],
         advance (replicate (SECTOR_SIZE - (i + 1)) (Xfer 0xFF)) ?w')"
      using "1.IH" [OF True pair] True "1.prems" by simp
    have step: "sd_read_payload i buffer w = sd_read_payload (i + 1) (buffer[i := ?b]) ?w'"
      using True by (subst sd_read_payload.simps) (simp add: spi_transfer_advance)
    have tk: "take (i + 1) (buffer[i := ?b]) = take i buffer @ [?b]"
      using True "1.prems" by (simp add: take_Suc_conv_app_nth)
    have suc: "SECTOR_SIZE - i = Suc (SECTOR_SIZE - (i + 1))"
      using True by simp
    have mp: "map (\<lambda>j. miso w (clock w + j)) [0..<SECTOR_SIZE - i]
        = ?b # map (\<lambda>j. miso ?w' (clock ?w' + j)) [0..<SECTOR_SIZE - (i + 1)]"
      unfolding suc by (simp add: upt_conv_Cons map_Suc_upt [symmetric] del: upt_Suc)
    have rp: "[Xfer 0xFF] @ replicate (SECTOR_SIZE - (i + 1)) (Xfer 0xFF)
        = replicate (SECTOR_SIZE - i) (Xfer 0xFF)"
      unfolding suc by simp
    show ?thesis
      unfolding step ih tk mp advance_advance rp by simp
  next
    case False
    with "1.prems" have "i = SECTOR_SIZE" by simp
    with False "1.prems" show ?thesis
      by (subst sd_read_payload.simps) simp
  qed
qed

lemma sd_read_payload_world:
  "snd (sd_read_payload i buffer w) = advance (replicate (SECTOR_SIZE - i) (Xfer 0xFF)) w"
proof (induction i buffer w rule: sd_read_payload.induct)
  case (1 i buffer w)
  show ?case
  proof (cases "i < SECTOR_SIZE")
    case True
    let ?b = "miso w (clock w)"
    let ?w' = "advance [Xfer 0xFF] w"
    have pair: "(?b, ?w') = spi_transfer 0xFF w"
      by (simp add: spi_transfer_advance)
    have step: "sd_read_payload i buffer w = sd_read_payload (i + 1) (buffer[i := ?b]) ?w'"
      using True by (subst sd_read_payload.simps) (simp add: spi_transfer_advance)
    have suc: "SECTOR_SIZE - i = Suc (SECTOR_SIZE - (i + 1))"
      using True by simp
    have rp: "[Xfer 0xFF] @ replicate (SECTOR_SIZE - (i + 1)) (Xfer 0xFF)
        = replicate (SECTOR_SIZE - i) (Xfer 0xFF)"
      unfolding suc by simp
    show ?thesis
      unfolding step "1.IH" [OF True pair] advance_advance rp ..
  next
    case False
    then show ?thesis
      by (subst sd_read_payload.simps) simp
  qed
qed

lemma sd_send_cmd_obtain:
  obtains r w' k where "sd_send_cmd cmd arg crc w = (r, w')"
    "w' = advance (cmd_events cmd arg crc k) w" "1 \<le> k" "k \<le> 8"
    "r = miso w (clock w + 6 + k - 1)"
  using sd_send_cmd_advance [of cmd arg crc w] by blast

lemma sd_init_acmd41_obtain:
  obtains t' w' es n where "sd_init_acmd41 t w = (t', w')" "w' = advance es w"
    "CS_High \<notin> set es" "Xfer 0x51 \<notin> set es" "count_list es CS_Low = 2 * n" "1 \<le> n" "n \<le> unat (t - 1) + 1"
    "xfers es \<le> 28 * n" "14 * n \<le> xfers es" "t' = 0 \<and> t \<noteq> 0 \<longrightarrow> n = unat t"
proof -
  from sd_init_acmd41_trace [of t w]
  obtain es n where "snd (sd_init_acmd41 t w) = advance es w" "CS_High \<notin> set es"
    "Xfer 0x51 \<notin> set es" "count_list es CS_Low = 2 * n" "1 \<le> n" "n \<le> unat (t - 1) + 1"
    "xfers es \<le> 28 * n" "14 * n \<le> xfers es"
    "fst (sd_init_acmd41 t w) = 0 \<and> t \<noteq> 0 \<longrightarrow> n = unat t"
    by blast
  then show thesis
    by (intro that [of "fst (sd_init_acmd41 t w)" "snd (sd_init_acmd41 t w)" es n]) (simp_all add: prod_eq_iff)
qed

lemma sd_read_token_obtain:
  obtains t' w' n where "sd_read_token t w = (t', w')"
    "w' = advance (replicate n (Xfer 0xFF)) w" "1 \<le> n" "n \<le> unat (t - 1) + 1"
    "\<forall>j < n - 1. miso w (clock w + j) \<noteq> 0xFE"
    "n < unat (t - 1) + 1 \<longrightarrow> miso w (clock w + n - 1) = 0xFE"
    "t \<noteq> 0 \<longrightarrow> (t' = 0 \<longleftrightarrow> n = unat t \<and> miso w (clock w + n - 1) \<noteq> 0xFE)"
proof -
  from sd_read_token_trace [of t w]
  obtain n where "1 \<le> n" "n \<le> unat (t - 1) + 1"
    "snd (sd_read_token t w) = advance (replicate n (Xfer 0xFF)) w"
    "\<forall>j < n - 1. miso w (clock w + j) \<noteq> 0xFE"
    "n < unat (t - 1) + 1 \<longrightarrow> miso w (clock w + n - 1) = 0xFE"
    "t \<noteq> 0 \<longrightarrow> (fst (sd_read_token t w) = 0
        \<longleftrightarrow> n = unat t \<and> miso w (clock w + n - 1) \<noteq> 0xFE)"
    by blast
  then show thesis
    by (intro that [of "fst (sd_read_token t w)" "snd (sd_read_token t w)" n]) (simp_all add: prod_eq_iff)
qed

lemma xfer4:
  "snd (spi_transfer 0xFF (snd (spi_transfer 0xFF (snd (spi_transfer 0xFF
     (snd (spi_transfer 0xFF w)))))))
   = advance (replicate 4 (Xfer 0xFF)) w"
  by (simp add: spi_transfer_advance numeral_eq_Suc)

lemma xfer2:
  "snd (spi_transfer 0xFF (snd (spi_transfer 0xFF w))) = advance (replicate 2 (Xfer 0xFF)) w"
  by (simp add: spi_transfer_advance numeral_eq_Suc)

lemma release: "snd (spi_transfer 0xFF (SD_CS_HIGH w)) = advance [CS_High, Xfer 0xFF] w"
  by (simp add: spi_transfer_advance SD_CS_HIGH_advance)

lemma sd_init_run_ex:
  "\<exists>r0 w1 k0 r8 w2 k8 t' w4 es n r58 w5 k58.
     sd_init_run w r0 w1 k0 r8 w2 k8 t' w4 es n r58 w5 k58"
proof -
  define w0 where "w0 = spi_send_dummy 10 (SD_CS_HIGH w)"
  have w0: "w0 = advance (CS_High # replicate 10 (Xfer 0xFF)) w"
    by (simp add: w0_def spi_send_dummy_advance SD_CS_HIGH_advance)
  obtain r0 w1 k0 where c0: "sd_send_cmd 0 0 0x95 w0 = (r0, w1)"
    and w1: "w1 = advance (cmd_events 0 0 0x95 k0) w0" and k0: "1 \<le> k0" "k0 \<le> 8"
    by (rule sd_send_cmd_obtain)
  obtain r8 w2 k8 where c8: "sd_send_cmd 8 0x1AA 0x87 w1 = (r8, w2)"
    and w2: "w2 = advance (cmd_events 8 0x1AA 0x87 k8) w1" and k8: "1 \<le> k8" "k8 \<le> 8"
    by (rule sd_send_cmd_obtain)
  define w3 where "w3 = snd (spi_transfer 0xFF (snd (spi_transfer 0xFF
     (snd (spi_transfer 0xFF (snd (spi_transfer 0xFF w2)))))))"
  have w3: "w3 = advance (replicate 4 (Xfer 0xFF)) w2"
    unfolding w3_def by (rule xfer4)
  obtain t' w4 es n where ca: "sd_init_acmd41 0xFFFF w3 = (t', w4)"
    and w4: "w4 = advance es w3" and es: "CS_High \<notin> set es" "count_list es CS_Low = 2 * n"
      "1 \<le> n" "n \<le> unat ((0xFFFF :: u16) - 1) + 1" "xfers es \<le> 28 * n" "14 * n \<le> xfers es"
      "t' = 0 \<and> (0xFFFF :: u16) \<noteq> 0 \<longrightarrow> n = unat (0xFFFF :: u16)" "Xfer 0x51 \<notin> set es"
    by (rule sd_init_acmd41_obtain)
  obtain r58 w5 k58 where c58: "sd_send_cmd 58 0 0xFD w4 = (r58, w5)"
    and w5: "w5 = advance (cmd_events 58 0 0xFD k58) w4" and k58: "1 \<le> k58" "k58 \<le> 8"
    by (rule sd_send_cmd_obtain)
  define w6 where "w6 = snd (spi_transfer 0xFF (snd (spi_transfer 0xFF
     (snd (spi_transfer 0xFF (snd (spi_transfer 0xFF w5)))))))"
  have w6: "w6 = advance (replicate 4 (Xfer 0xFF)) w5"
    unfolding w6_def by (rule xfer4)
  have unfold: "sd_init w
    = (if r0 \<noteq> 1 then (0, w1) else if r8 \<noteq> 1 then (0, w2) else if t' = 0 then (0, w4)
       else if r58 \<noteq> 0 then (0, w5) else (1, snd (spi_transfer 0xFF (SD_CS_HIGH w6))))"
    by (simp add: sd_init_def Let_def w0_def [symmetric] c0 c8 w3_def [symmetric] ca c58
        w6_def [symmetric])
  have fin: "snd (spi_transfer 0xFF (SD_CS_HIGH w6))
      = advance (replicate 4 (Xfer 0xFF) @ [CS_High, Xfer 0xFF]) w5"
    by (simp add: release w6)
  have "sd_init_run w r0 w1 k0 r8 w2 k8 t' w4 es n r58 w5 k58"
    unfolding sd_init_run_def
  proof (intro conjI)
    show "sd_init w
     = (if r0 \<noteq> 1 then (0, w1) else if r8 \<noteq> 1 then (0, w2) else if t' = 0 then (0, w4)
        else if r58 \<noteq> 0 then (0, w5)
        else (1, advance (replicate 4 (Xfer 0xFF) @ [CS_High, Xfer 0xFF]) w5))"
      unfolding unfold fin ..
    show "sd_send_cmd 0 0 0x95 (advance (CS_High # replicate 10 (Xfer 0xFF)) w) = (r0, w1)"
      using c0 unfolding w0 .
    show "w1 = advance (CS_High # replicate 10 (Xfer 0xFF) @ cmd_events 0 0 0x95 k0) w"
      by (simp add: w1 w0)
    show "sd_init_acmd41 0xFFFF (advance (replicate 4 (Xfer 0xFF)) w2) = (t', w4)"
      using ca unfolding w3 .
    show "w4 = advance (replicate 4 (Xfer 0xFF) @ es) w2"
      by (simp add: w4 w3)
    show "n \<le> 65535" "t' = 0 \<longrightarrow> n = 65535"
      using es(4,7) by simp_all
  qed (fact k0 c8 w2 k8 es c58 w5 k58)+
  then show ?thesis by blast
qed

lemma sd_init_trace:
  "\<exists>es. snd (sd_init w)
          = advance (CS_High # replicate 10 (Xfer 0xFF) @ es
              @ (if fst (sd_init w) = 0 then [] else [CS_High, Xfer 0xFF])) w
      \<and> CS_High \<notin> set es \<and> es \<noteq> [] \<and> hd es = CS_Low \<and> xfers es \<le> init_bound
      \<and> Xfer 0x51 \<notin> set es
      \<and> (fst (sd_init w) = 0 \<or> fst (sd_init w) = 1 \<and> 5 \<le> count_list es CS_Low)"
proof -
  from sd_init_run_ex [of w]
  obtain r0 w1 k0 r8 w2 k8 t' w4 es n r58 w5 k58 where
    "sd_init_run w r0 w1 k0 r8 w2 k8 t' w4 es n r58 w5 k58"
    by blast
  then have
    unfold: "sd_init w
     = (if r0 \<noteq> 1 then (0, w1) else if r8 \<noteq> 1 then (0, w2) else if t' = 0 then (0, w4)
        else if r58 \<noteq> 0 then (0, w5)
        else (1, advance (replicate 4 (Xfer 0xFF) @ [CS_High, Xfer 0xFF]) w5))"
    and w1: "w1 = advance (CS_High # replicate 10 (Xfer 0xFF) @ cmd_events 0 0 0x95 k0) w"
    and k0: "1 \<le> k0" "k0 \<le> 8"
    and w2: "w2 = advance (cmd_events 8 0x1AA 0x87 k8) w1" and k8: "1 \<le> k8" "k8 \<le> 8"
    and w4: "w4 = advance (replicate 4 (Xfer 0xFF) @ es) w2"
    and es: "CS_High \<notin> set es" "n \<le> 65535" "xfers es \<le> 28 * n"
      "Xfer 0x51 \<notin> set es" "count_list es CS_Low = 2 * n" "1 \<le> n"
    and w5: "w5 = advance (cmd_events 58 0 0xFD k58) w4" and k58: "1 \<le> k58" "k58 \<le> 8"
    unfolding sd_init_run_def by blast+
  have n: "28 * n \<le> 28 * 65535"
    using es(2) by simp
  have no17: "Xfer 0x51 \<notin> set (cmd_events 0 0 0x95 k0)"
    "Xfer 0x51 \<notin> set (cmd_events 8 0x1AA 0x87 k8)"
    "Xfer 0x51 \<notin> set (cmd_events 58 0 0xFD k58)"
    by (simp_all add: cmd_events_def cmd_frame_def)
  let ?e0 = "cmd_events 0 0 0x95 k0"
  let ?e8 = "cmd_events 8 0x1AA 0x87 k8"
  let ?e58 = "cmd_events 58 0 0xFD k58"
  let ?r4 = "replicate 4 (Xfer 0xFF)"
  consider (f0) "r0 \<noteq> 1" | (f8) "r0 = 1" "r8 \<noteq> 1" | (fa) "r0 = 1" "r8 = 1" "t' = 0"
    | (f58) "r0 = 1" "r8 = 1" "t' \<noteq> 0" "r58 \<noteq> 0"
    | (ok) "r0 = 1" "r8 = 1" "t' \<noteq> 0" "r58 = 0"
    by blast
  then show ?thesis
  proof cases
    case f0
    then show ?thesis
      unfolding unfold using k0 no17
      by (intro exI [of _ ?e0]) (simp add: w1 init_bound_def)
  next
    case f8
    then show ?thesis
      unfolding unfold using k0 k8 no17
      by (intro exI [of _ "?e0 @ ?e8"]) (simp add: w2 w1 init_bound_def)
  next
    case fa
    then show ?thesis
      unfolding unfold using k0 k8 es n no17
      by (intro exI [of _ "?e0 @ ?e8 @ ?r4 @ es"]) (simp add: w4 w2 w1 init_bound_def)
  next
    case f58
    then show ?thesis
      unfolding unfold using k0 k8 es n k58 no17
      by (intro exI [of _ "?e0 @ ?e8 @ ?r4 @ es @ ?e58"])
         (simp add: w5 w4 w2 w1 init_bound_def)
  next
    case ok
    then show ?thesis
      unfolding unfold using k0 k8 es n k58 no17
      by (intro exI [of _ "?e0 @ ?e8 @ ?r4 @ es @ ?e58 @ ?r4"])
         (simp add: w5 w4 w2 w1 init_bound_def)
  qed
qed

lemma sd_read_token_ceiling:
  "fst (sd_read_token 0xFFFF w) = 0 \<longleftrightarrow> (\<forall>j < 65535. miso w (clock w + j) \<noteq> 0xFE)"
proof -
  obtain t' w' n where tok: "sd_read_token 0xFFFF w = (t', w')"
    and n: "1 \<le> n" "n \<le> unat ((0xFFFF :: u16) - 1) + 1"
    and before: "\<forall>j < n - 1. miso w (clock w + j) \<noteq> 0xFE"
    and early: "n < unat ((0xFFFF :: u16) - 1) + 1 \<longrightarrow> miso w (clock w + n - 1) = 0xFE"
    and zero: "(0xFFFF :: u16) \<noteq> 0 \<longrightarrow>
      (t' = 0 \<longleftrightarrow> n = unat (0xFFFF :: u16) \<and> miso w (clock w + n - 1) \<noteq> 0xFE)"
    by (rule sd_read_token_obtain)
  have le: "n \<le> 65535" and early': "n < 65535 \<longrightarrow> miso w (clock w + n - 1) = 0xFE"
    and zero': "t' = 0 \<longleftrightarrow> n = 65535 \<and> miso w (clock w + n - 1) \<noteq> 0xFE"
    using n(2) early zero by simp_all
  have t': "fst (sd_read_token 0xFFFF w) = t'"
    using tok by simp
  show ?thesis
    unfolding t'
  proof
    assume "t' = 0"
    with zero' have full: "n = 65535" and last: "miso w (clock w + n - 1) \<noteq> 0xFE"
      by blast+
    show "\<forall>j < 65535. miso w (clock w + j) \<noteq> 0xFE"
    proof (intro allI impI)
      fix j :: nat assume j: "j < 65535"
      show "miso w (clock w + j) \<noteq> 0xFE"
      proof (cases "j < n - 1")
        case True
        with before show ?thesis by blast
      next
        case False
        with j full have "clock w + j = clock w + n - 1" by simp
        with last show ?thesis by simp
      qed
    qed
  next
    assume none: "\<forall>j < 65535. miso w (clock w + j) \<noteq> 0xFE"
    have "clock w + (n - 1) = clock w + n - 1" "n - 1 < 65535"
      using n(1) le by simp_all
    with none [rule_format, of "n - 1"] have last: "miso w (clock w + n - 1) \<noteq> 0xFE"
      by simp
    with early' le have "n = 65535" by fastforce
    with last zero' show "t' = 0" by blast
  qed
qed

lemma sd_read_sector_trace:
  "\<exists>k m. 1 \<le> k \<and> k \<le> 8 \<and> m \<le> 65535 + 512 + 2
      \<and> snd (snd (sd_read_sector sector buffer w))
          = advance (CS_Low # cmd_events 17 sector 0xFF k @ replicate m (Xfer 0xFF)
              @ [CS_High, Xfer 0xFF]) w
      \<and> (fst (sd_read_sector sector buffer w) = 0 \<or> fst (sd_read_sector sector buffer w) = 1)
      \<and> (fst (sd_read_sector sector buffer w) = 0
           \<longrightarrow> fst (snd (sd_read_sector sector buffer w)) = buffer)
      \<and> (length buffer = SECTOR_SIZE
           \<longrightarrow> length (fst (snd (sd_read_sector sector buffer w))) = SECTOR_SIZE)"
proof -
  define w0 where "w0 = SD_CS_LOW w"
  have w0: "w0 = advance [CS_Low] w"
    by (simp add: w0_def SD_CS_LOW_advance)
  obtain r w1 k where c: "sd_send_cmd 17 sector 0xFF w0 = (r, w1)"
    and w1: "w1 = advance (cmd_events 17 sector 0xFF k) w0" and k: "1 \<le> k" "k \<le> 8"
    by (rule sd_send_cmd_obtain)
  obtain t' w2 n where tok: "sd_read_token 0xFFFF w1 = (t', w2)"
    and w2: "w2 = advance (replicate n (Xfer 0xFF)) w1"
    and n: "n \<le> unat ((0xFFFF :: u16) - 1) + 1"
    by (rule sd_read_token_obtain)
  obtain buffer' w3 where pl: "sd_read_payload 0 buffer w2 = (buffer', w3)"
    by (cases "sd_read_payload 0 buffer w2")
  have w3: "w3 = advance (replicate 512 (Xfer 0xFF)) w2"
    using sd_read_payload_world [of 0 buffer w2] pl by (simp add: SECTOR_SIZE_def)
  have len: "length buffer' = SECTOR_SIZE" if "length buffer = SECTOR_SIZE"
    using sd_read_payload_trace [of 0 buffer w2] that pl by simp
  define w4 where "w4 = snd (spi_transfer 0xFF (snd (spi_transfer 0xFF w3)))"
  have w4: "w4 = advance (replicate 2 (Xfer 0xFF)) w3"
    unfolding w4_def by (rule xfer2)
  have unfold: "sd_read_sector sector buffer w
    = (if r \<noteq> 0 then (0, buffer, snd (spi_transfer 0xFF (SD_CS_HIGH w1)))
       else if t' = 0 then (0, buffer, snd (spi_transfer 0xFF (SD_CS_HIGH w2)))
       else (1, buffer', snd (spi_transfer 0xFF (SD_CS_HIGH w4))))"
    by (simp add: sd_read_sector_def Let_def w0_def [symmetric] c tok pl w4_def [symmetric])
  have n': "n \<le> 65535"
    using n by simp
  have r514: "replicate 512 (Xfer 0xFF) @ replicate 2 (Xfer 0xFF) = replicate 514 (Xfer 0xFF)"
    using replicate_add [of 512 2 "Xfer 0xFF"] by simp
  have merge: "replicate n (Xfer 0xFF) @ replicate 512 (Xfer 0xFF) @ replicate 2 (Xfer 0xFF) @ es
      = replicate (n + 514) (Xfer 0xFF) @ es" for es
    unfolding replicate_add r514 [symmetric] by simp
  consider (rej) "r \<noteq> 0" | (tmo) "r = 0" "t' = 0" | (ok) "r = 0" "t' \<noteq> 0"
    by blast
  then show ?thesis
  proof cases
    case rej
    show ?thesis
      unfolding unfold
      apply (rule exI [of _ k], rule exI [of _ "0::nat"])
      using rej k apply (simp add: release w1 w0)
      done
  next
    case tmo
    show ?thesis
      unfolding unfold
      apply (rule exI [of _ k], rule exI [of _ n])
      using tmo k n' apply (simp add: release w2 w1 w0)
      done
  next
    case ok
    show ?thesis
      unfolding unfold
      apply (rule exI [of _ k], rule exI [of _ "n + 514"])
      using ok k n' len apply (simp add: release w4 w3 w2 w1 w0 merge)
      done
  qed
qed

lemma sd_read_sector_no_token:
  assumes "\<And>n. miso w n \<noteq> 0xFE"
  shows "fst (sd_read_sector sector buffer w) = 0"
proof -
  obtain r w1 k where c: "sd_send_cmd 17 sector 0xFF (SD_CS_LOW w) = (r, w1)"
    and w1: "w1 = advance (cmd_events 17 sector 0xFF k) (SD_CS_LOW w)"
    by (rule sd_send_cmd_obtain)
  obtain t' w2 where tok: "sd_read_token 0xFFFF w1 = (t', w2)"
    by (cases "sd_read_token 0xFFFF w1")
  have "miso w1 = miso w"
    by (simp add: w1 SD_CS_LOW_advance)
  with assms have "fst (sd_read_token 0xFFFF w1) = 0"
    unfolding sd_read_token_ceiling by simp
  with tok have "t' = 0" by simp
  then show ?thesis
    by (simp add: sd_read_sector_def Let_def c tok split: prod.splits)
qed

lemma sd_init_never_ready:
  assumes "\<And>n. miso w n \<noteq> 0"
  shows "fst (sd_init w) = 0"
proof -
  from sd_init_run_ex [of w]
  obtain r0 w1 k0 r8 w2 k8 t' w4 es n r58 w5 k58 where
    "sd_init_run w r0 w1 k0 r8 w2 k8 t' w4 es n r58 w5 k58"
    by blast
  then have
    unfold: "sd_init w
     = (if r0 \<noteq> 1 then (0, w1) else if r8 \<noteq> 1 then (0, w2) else if t' = 0 then (0, w4)
        else if r58 \<noteq> 0 then (0, w5)
        else (1, advance (replicate 4 (Xfer 0xFF) @ [CS_High, Xfer 0xFF]) w5))"
    and w1: "w1 = advance (CS_High # replicate 10 (Xfer 0xFF) @ cmd_events 0 0 0x95 k0) w"
    and w2: "w2 = advance (cmd_events 8 0x1AA 0x87 k8) w1"
    and ca: "sd_init_acmd41 0xFFFF (advance (replicate 4 (Xfer 0xFF)) w2) = (t', w4)"
    unfolding sd_init_run_def by blast+
  have "miso (advance (replicate 4 (Xfer 0xFF)) w2) n \<noteq> 0" for n
    using assms by (simp add: w2 w1)
  then have "fst (sd_init_acmd41 0xFFFF (advance (replicate 4 (Xfer 0xFF)) w2)) = 0"
    by (rule sd_init_acmd41_never_ready)
  with ca have "t' = 0" by simp
  then show ?thesis
    unfolding unfold by simp
qed

subsection \<open>Runs on a card that answers at once\<close>

lemma sd_init_step:
  assumes "sd_send_cmd 0 0 0x95 (advance (CS_High # replicate 10 (Xfer 0xFF)) w) = (r0, w1)"
    and "sd_send_cmd 8 0x1AA 0x87 w1 = (r8, w2)"
    and "sd_init_acmd41 0xFFFF (advance (replicate 4 (Xfer 0xFF)) w2) = (t', w4)"
    and "sd_send_cmd 58 0 0xFD w4 = (r58, w5)"
  shows "sd_init w
     = (if r0 \<noteq> 1 then (0, w1) else if r8 \<noteq> 1 then (0, w2) else if t' = 0 then (0, w4)
        else if r58 \<noteq> 0 then (0, w5)
        else (1, advance (replicate 4 (Xfer 0xFF) @ [CS_High, Xfer 0xFF]) w5))"
  unfolding sd_init_def Let_def xfer4 release
  by (simp add: spi_send_dummy_advance SD_CS_HIGH_advance assms)

lemma sd_send_cmd_fast:
  assumes "miso w (clock w + 6) AND 0x80 = 0"
  shows "sd_send_cmd cmd arg crc w = (miso w (clock w + 6), advance (cmd_events cmd arg crc 1) w)"
proof -
  from sd_send_cmd_advance [of cmd arg crc w]
  obtain k where k: "1 \<le> k"
    and res: "sd_send_cmd cmd arg crc w
       = (miso w (clock w + 6 + k - 1), advance (cmd_events cmd arg crc k) w)"
    and before: "\<forall>j < k - 1. miso w (clock w + 6 + j) AND 0x80 \<noteq> 0"
    by blast
  have "k = 1"
  proof (rule ccontr)
    assume "k \<noteq> 1"
    with k have "0 < k - 1" by simp
    with before have "miso w (clock w + 6 + 0) AND 0x80 \<noteq> 0" by blast
    with assms show False by simp
  qed
  with res show ?thesis by (simp add: add.commute)
qed

lemma sd_init_fast:
  assumes "miso w (clock w + 16) = 1" "miso w (clock w + 23) = 1"
    and "miso w (clock w + 34) AND 0x80 = 0" "miso w (clock w + 41) = 0"
    and "miso w (clock w + 48) = 0"
  shows "sd_init w
    = (1, advance (CS_High # replicate 10 (Xfer 0xFF) @ cmd_events 0 0 0x95 1
            @ cmd_events 8 0x1AA 0x87 1 @ replicate 4 (Xfer 0xFF)
            @ cmd_events 55 0 0x65 1 @ cmd_events 41 0x40000000 0x77 1
            @ cmd_events 58 0 0xFD 1 @ replicate 4 (Xfer 0xFF) @ [CS_High, Xfer 0xFF]) w)"
proof -
  let ?w0 = "advance (CS_High # replicate 10 (Xfer 0xFF)) w"
  let ?w1 = "advance (cmd_events 0 0 0x95 1) ?w0"
  let ?w2 = "advance (cmd_events 8 0x1AA 0x87 1) ?w1"
  let ?w3 = "advance (replicate 4 (Xfer 0xFF)) ?w2"
  let ?w3a = "advance (cmd_events 55 0 0x65 1) ?w3"
  let ?w4 = "advance (cmd_events 41 0x40000000 0x77 1) ?w3a"
  let ?w5 = "advance (cmd_events 58 0 0xFD 1) ?w4"
  have c0: "sd_send_cmd 0 0 0x95 ?w0 = (1, ?w1)"
    using assms(1) sd_send_cmd_fast [of ?w0 0 0 "0x95"] by (simp add: add.commute)
  have c8: "sd_send_cmd 8 0x1AA 0x87 ?w1 = (1, ?w2)"
    using assms(2) sd_send_cmd_fast [of ?w1 8 "0x1AA" "0x87"] by (simp add: add.commute)
  have c55: "sd_send_cmd 55 0 0x65 ?w3 = (miso w (clock w + 34), ?w3a)"
    using assms(3) sd_send_cmd_fast [of ?w3 55 0 "0x65"] by (simp add: add.commute)
  have c41: "sd_send_cmd 41 0x40000000 0x77 ?w3a = (0, ?w4)"
    using assms(4) sd_send_cmd_fast [of ?w3a 41 "0x40000000" "0x77"] by (simp add: add.commute)
  have ca: "sd_init_acmd41 0xFFFF ?w3 = (0xFFFF, ?w4)"
    using sd_init_acmd41_step [OF c55 c41, of "0xFFFF"] by simp
  have c58: "sd_send_cmd 58 0 0xFD ?w4 = (0, ?w5)"
    using assms(5) sd_send_cmd_fast [of ?w4 58 0 "0xFD"] by (simp add: add.commute)
  show ?thesis
    using sd_init_step [OF c0 c8 ca c58] by simp
qed

lemma sd_init_no_idle:
  assumes "miso w (clock w + 16) AND 0x80 = 0" "miso w (clock w + 16) \<noteq> 1"
  shows "sd_init w
    = (0, advance (CS_High # replicate 10 (Xfer 0xFF) @ cmd_events 0 0 0x95 1) w)"
proof -
  let ?w0 = "advance (CS_High # replicate 10 (Xfer 0xFF)) w"
  have c0: "sd_send_cmd 0 0 0x95 ?w0 = (miso w (clock w + 16), advance (cmd_events 0 0 0x95 1) ?w0)"
    using assms(1) sd_send_cmd_fast [of ?w0 0 0 "0x95"] by (simp add: add.commute)
  obtain r8 w2 where c8: "sd_send_cmd 8 0x1AA 0x87 (advance (cmd_events 0 0 0x95 1) ?w0) = (r8, w2)"
    by (cases "sd_send_cmd 8 0x1AA 0x87 (advance (cmd_events 0 0 0x95 1) ?w0)")
  obtain t' w4 where ca: "sd_init_acmd41 0xFFFF (advance (replicate 4 (Xfer 0xFF)) w2) = (t', w4)"
    by (cases "sd_init_acmd41 0xFFFF (advance (replicate 4 (Xfer 0xFF)) w2)")
  obtain r58 w5 where c58: "sd_send_cmd 58 0 0xFD w4 = (r58, w5)"
    by (cases "sd_send_cmd 58 0 0xFD w4")
  show ?thesis
    using sd_init_step [OF c0 c8 ca c58] assms(2) by simp
qed

lemma sd_read_sector_step:
  assumes "sd_send_cmd 17 sector 0xFF (advance [CS_Low] w) = (r, w1)"
    and "sd_read_token 0xFFFF w1 = (t', w2)"
  shows "sd_read_sector sector buffer w
    = (if r \<noteq> 0 then (0, buffer, advance [CS_High, Xfer 0xFF] w1)
       else if t' = 0 then (0, buffer, advance [CS_High, Xfer 0xFF] w2)
       else (1, fst (sd_read_payload 0 buffer w2),
             advance (replicate 514 (Xfer 0xFF) @ [CS_High, Xfer 0xFF]) w2))"
proof -
  have r514: "replicate 512 (Xfer 0xFF) @ replicate 2 (Xfer 0xFF) @ es
      = replicate 514 (Xfer 0xFF) @ es" for es
    using replicate_add [of 512 2 "Xfer 0xFF"] by simp
  show ?thesis
    by (simp add: sd_read_sector_def Let_def SD_CS_LOW_advance assms release xfer2
        split_beta sd_read_payload_world SECTOR_SIZE_def r514)
qed

lemma sd_read_sector_fast:
  assumes "length buffer = SECTOR_SIZE"
    and "miso w (clock w + 6) = 0" "miso w (clock w + 7) = 0xFE"
  shows "sd_read_sector sector buffer w
    = (1, map (\<lambda>j. miso w (clock w + 8 + j)) [0..<SECTOR_SIZE],
       advance (CS_Low # cmd_events 17 sector 0xFF 1 @ replicate 515 (Xfer 0xFF)
         @ [CS_High, Xfer 0xFF]) w)"
proof -
  let ?w0 = "advance [CS_Low] w"
  let ?w1 = "advance (cmd_events 17 sector 0xFF 1) ?w0"
  define w2 where "w2 = advance [Xfer 0xFF] ?w1"
  have c: "sd_send_cmd 17 sector 0xFF ?w0 = (0, ?w1)"
    using assms(2) sd_send_cmd_fast [of ?w0 17 sector "0xFF"] by simp
  have tok: "sd_read_token 0xFFFF ?w1 = (0xFFFF, w2)"
    using assms(3) by (subst sd_read_token_step) (simp add: add.commute w2_def)
  have pl: "fst (sd_read_payload 0 buffer w2) = map (\<lambda>j. miso w (clock w + 8 + j)) [0..<SECTOR_SIZE]"
    using sd_read_payload_trace [of 0 buffer w2] assms(1)
    by (simp add: w2_def add.commute add.left_commute)
  have r515: "Xfer 0xFF # replicate 514 (Xfer 0xFF) @ es = replicate 515 (Xfer 0xFF) @ es" for es
    using replicate_add [of 1 514 "Xfer 0xFF"] by simp
  have "sd_read_sector sector buffer w
      = (1, map (\<lambda>j. miso w (clock w + 8 + j)) [0..<SECTOR_SIZE],
         advance (replicate 514 (Xfer 0xFF) @ [CS_High, Xfer 0xFF]) w2)"
    using sd_read_sector_step [OF c tok, of buffer] by (simp add: pl)
  then show ?thesis
    by (simp add: w2_def r515)
qed

lemma sd_read_sector_rejected:
  assumes "miso w (clock w + 6) AND 0x80 = 0" "miso w (clock w + 6) \<noteq> 0"
  shows "sd_read_sector sector buffer w
    = (0, buffer, advance (CS_Low # cmd_events 17 sector 0xFF 1 @ [CS_High, Xfer 0xFF]) w)"
proof -
  let ?w0 = "advance [CS_Low] w"
  let ?w1 = "advance (cmd_events 17 sector 0xFF 1) ?w0"
  have c: "sd_send_cmd 17 sector 0xFF ?w0 = (miso w (clock w + 6), ?w1)"
    using assms(1) sd_send_cmd_fast [of ?w0 17 sector "0xFF"] by simp
  obtain t' w2 where tok: "sd_read_token 0xFFFF ?w1 = (t', w2)"
    by (cases "sd_read_token 0xFFFF ?w1")
  show ?thesis
    using sd_read_sector_step [OF c tok, of buffer] assms(2) by simp
qed

lemma sd_init_ready_card:
  "sd_init ready_card
    = (1, advance (CS_High # replicate 10 (Xfer 0xFF) @ cmd_events 0 0 0x95 1
            @ cmd_events 8 0x1AA 0x87 1 @ replicate 4 (Xfer 0xFF)
            @ cmd_events 55 0 0x65 1 @ cmd_events 41 0x40000000 0x77 1
            @ cmd_events 58 0 0xFD 1 @ replicate 4 (Xfer 0xFF) @ [CS_High, Xfer 0xFF]) ready_card)"
  by (rule sd_init_fast) (simp_all add: ready_card_def)

section \<open>Byte assembly\<close>

lemma or_push_bit_add:
  fixes x y :: nat
  assumes "x < 2 ^ k"
  shows "x OR push_bit k y = x + push_bit k y"
proof -
  have "\<not> bit x n \<or> \<not> bit (push_bit k y) n" for n
  proof (cases "n < k")
    case True
    then show ?thesis by (simp add: bit_push_bit_iff)
  next
    case False
    then have "2 ^ k \<le> (2::nat) ^ n" by simp
    with assms have "x < 2 ^ n" by linarith
    then show ?thesis by (simp add: bit_iff_odd)
  qed
  then show ?thesis by (rule disjunctive_add [symmetric])
qed

lemma unat_bytes32:
  fixes b0 b1 b2 b3 :: u8
  shows "unat ((ucast b0 :: u32) OR push_bit 8 (ucast b1) OR push_bit 16 (ucast b2)
           OR push_bit 24 (ucast b3))
         = unat b0 + 256 * unat b1 + 65536 * unat b2 + 16777216 * unat b3"
proof -
  define a b c d where "a = unat b0" and "b = unat b1" and "c = unat b2" and "d = unat b3"
  have bnd: "a < 256" "b < 256" "c < 256" "d < 256"
    using unsigned_less [of b0] unsigned_less [of b1] unsigned_less [of b2] unsigned_less [of b3]
    by (simp_all add: a_def b_def c_def d_def)
  have 1: "a OR push_bit 8 b = a + 256 * b"
    using or_push_bit_add [of a 8 b] bnd by (simp add: push_bit_eq_mult)
  have 2: "(a + 256 * b) OR push_bit 16 c = a + 256 * b + 65536 * c"
    using or_push_bit_add [of "a + 256 * b" 16 c] bnd by (simp add: push_bit_eq_mult)
  have 3: "(a + 256 * b + 65536 * c) OR push_bit 24 d = a + 256 * b + 65536 * c + 16777216 * d"
    using or_push_bit_add [of "a + 256 * b + 65536 * c" 24 d] bnd by (simp add: push_bit_eq_mult)
  have tb: "take_bit 32 a = a" "take_bit 32 b = b" "take_bit 32 c = c" "take_bit 32 d = d"
    "take_bit 32 (push_bit 8 b) = push_bit 8 b" "take_bit 32 (push_bit 16 c) = push_bit 16 c"
    "take_bit 32 (push_bit 24 d) = push_bit 24 d"
    using bnd by (simp_all add: take_bit_nat_eq_self_iff push_bit_eq_mult)
  have "unat ((ucast b0 :: u32) OR push_bit 8 (ucast b1) OR push_bit 16 (ucast b2)
           OR push_bit 24 (ucast b3)) = a OR push_bit 8 b OR push_bit 16 c OR push_bit 24 d"
    by (simp add: unsigned_or_eq unsigned_push_bit_eq unsigned_ucast_eq
        a_def [symmetric] b_def [symmetric] c_def [symmetric] d_def [symmetric] tb)
  also have "\<dots> = ((a OR push_bit 8 b) OR push_bit 16 c) OR push_bit 24 d"
    by (simp only: or.assoc)
  also have "\<dots> = a + 256 * b + 65536 * c + 16777216 * d"
    by (simp only: 1 2 3)
  finally show ?thesis
    by (simp only: a_def b_def c_def d_def)
qed

lemma unat_le32:
  "unat (le32 p k) = unat (p ! k) + 256 * unat (p ! (k + 1)) + 65536 * unat (p ! (k + 2))
      + 16777216 * unat (p ! (k + 3))"
  unfolding le32_def by (rule unat_bytes32)

lemma unat_bytes16:
  fixes b0 b1 :: u8
  shows "unat (ucast ((ucast (ucast b0 :: u16) :: u32) OR push_bit 8 (ucast b1 :: u32)) :: u16)
         = unat b0 + 256 * unat b1"
proof -
  define a b where "a = unat b0" and "b = unat b1"
  have bnd: "a < 256" "b < 256"
    using unsigned_less [of b0] unsigned_less [of b1] by (simp_all add: a_def b_def)
  have 1: "a OR push_bit 8 b = a + 256 * b"
    using or_push_bit_add [of a 8 b] bnd by (simp add: push_bit_eq_mult)
  have tb: "take_bit 32 a = a" "take_bit 16 a = a" "take_bit 8 a = a" "take_bit 8 b = b"
    "take_bit 32 b = b"
    "take_bit 32 (push_bit 8 b) = push_bit 8 b" "take_bit 16 (a + 256 * b) = a + 256 * b"
    using bnd by (simp_all add: take_bit_nat_eq_self_iff push_bit_eq_mult)
  have lo: "unat (ucast (ucast b0 :: u16) :: u32) = a"
    by (simp add: unsigned_ucast_eq unsigned_take_bit_eq a_def [symmetric] tb)
  have hi: "unat (push_bit 8 (ucast b1 :: u32)) = push_bit 8 b"
    by (simp only: unsigned_push_bit_eq unsigned_ucast_eq b_def [symmetric]) (simp add: tb)
  have "unat ((ucast (ucast b0 :: u16) :: u32) OR push_bit 8 (ucast b1 :: u32)) = a + 256 * b"
    by (simp only: unsigned_or_eq lo hi 1)
  then have "unat (ucast ((ucast (ucast b0 :: u16) :: u32) OR push_bit 8 (ucast b1 :: u32)) :: u16)
      = take_bit 16 (a + 256 * b)"
    by (simp only: unsigned_ucast_eq) simp
  then show ?thesis
    using tb unfolding a_def b_def by simp
qed

lemma be32_nat:
  fixes x :: nat
  assumes "x < 4294967296"
  shows "x = 16777216 * (x div 16777216 mod 256) + 65536 * (x div 65536 mod 256)
      + 256 * (x div 256 mod 256) + x mod 256"
proof -
  define y1 y2 y3 where "y1 = x div 256" and "y2 = y1 div 256" and "y3 = y2 div 256"
  have e0: "x = 256 * y1 + x mod 256"
    unfolding y1_def by simp
  have e1: "y1 = 256 * y2 + y1 mod 256"
    unfolding y2_def by simp
  have e2: "y2 = 256 * y3 + y2 mod 256"
    unfolding y3_def by simp
  have d2: "x div 65536 = y2"
    unfolding y2_def y1_def using div_mult2_eq [of x 256 256] by simp
  have d3: "x div 16777216 = y3"
    unfolding y3_def d2 [symmetric] using div_mult2_eq [of x 65536 256] by simp
  have "y3 < 256"
    unfolding d3 [symmetric] using assms by simp
  then have m3: "y3 mod 256 = y3"
    by simp
  have "x = 16777216 * y3 + 65536 * (y2 mod 256) + 256 * (y1 mod 256) + x mod 256"
    using e0 e1 e2 by linarith
  then show ?thesis
    unfolding d2 d3 m3 y1_def [symmetric] .
qed

lemma be32:
  fixes arg :: u32
  shows "unat arg = 16777216 * unat (ucast (drop_bit 24 arg) :: u8)
      + 65536 * unat (ucast (drop_bit 16 arg) :: u8)
      + 256 * unat (ucast (drop_bit 8 arg) :: u8) + unat (ucast arg :: u8)"
proof -
  have lt: "unat arg < 4294967296"
    using unsigned_less [where ?'a = nat, of arg] by simp
  have tb: "take_bit 32 (unat arg) = unat arg"
    by (rule take_bit_nat_eq_self) (use lt in simp)
  have d: "unat (drop_bit n arg) = unat arg div 2 ^ n" for n
    unfolding unsigned_drop_bit_eq by (simp add: drop_bit_eq_div tb)
  have b: "unat (ucast (drop_bit n arg) :: u8) = unat arg div 2 ^ n mod 256" for n
    unfolding unsigned_ucast_eq d by (simp add: take_bit_eq_mod)
  have b0: "unat (ucast arg :: u8) = unat arg mod 256"
    by (simp add: unsigned_ucast_eq take_bit_eq_mod)
  have top: "unat arg div 16777216 mod 256 = unat arg div 16777216"
    using lt by simp
  show ?thesis
    unfolding b b0 using be32_nat [OF lt] by (simp add: top)
qed

section \<open>Volume geometry\<close>

text \<open>
  Claim C2. For every boot-sector block, \<open>parse_fat32_info\<close> sets \<open>fat_start\<close> to the
  decoded reserved-sector count and \<open>data_start\<close> to
  \<open>reserved_sector_count + num_fats * fat_size\<close>, computed in unsigned 32-bit arithmetic
  (the sum and the product wrap modulo \<open>2 ^ 32\<close>). The reserved-sector count is the
  little-endian 16-bit field at offset 14, the FAT count the byte at offset 16 and the
  FAT size the little-endian 32-bit field at offset 36.
\<close>

theorem parse_fat32_info_geometry:
  "(let info = snd (parse_fat32_info sector) in
      fat_start info = ucast (reserved_sector_count info)
    \<and> data_start info
        = ucast (reserved_sector_count info) + ucast (num_fats info) * fat_size info
    \<and> unat (reserved_sector_count info) = unat (sector ! 14) + 256 * unat (sector ! 15)
    \<and> num_fats info = sector ! 16
    \<and> unat (fat_size info)
        = unat (sector ! 36) + 256 * unat (sector ! 37) + 65536 * unat (sector ! 38)
          + 16777216 * unat (sector ! 39)
    \<and> unat (fat_start info) = unat (reserved_sector_count info)
    \<and> unat (data_start info)
        = (unat (reserved_sector_count info) + unat (num_fats info) * unat (fat_size info))
          mod 2 ^ 32)"
proof -
  define info where "info = snd (parse_fat32_info sector)"
  have rsc: "reserved_sector_count info
      = ucast ((ucast (ucast (sector ! 14) :: u16) :: u32) OR push_bit 8 (ucast (sector ! 15) :: u32))"
    and nf: "num_fats info = sector ! 16"
    and fs: "fat_size info = le32 sector 36"
    and fstart: "fat_start info = ucast (reserved_sector_count info)"
    and dstart: "data_start info
      = ucast (reserved_sector_count info) + ucast (num_fats info) * fat_size info"
    by (simp_all add: info_def parse_fat32_info_def Let_def)
  have u_rsc: "unat (reserved_sector_count info) = unat (sector ! 14) + 256 * unat (sector ! 15)"
    unfolding rsc by (rule unat_bytes16)
  have u_fs: "unat (fat_size info)
      = unat (sector ! 36) + 256 * unat (sector ! 37) + 65536 * unat (sector ! 38)
        + 16777216 * unat (sector ! 39)"
    unfolding fs using unat_le32 [of sector 36] by simp
  have up16: "unat (ucast (reserved_sector_count info) :: u32) = unat (reserved_sector_count info)"
    using unsigned_less [where ?'a = nat, of "reserved_sector_count info"]
    by (simp add: unsigned_ucast_eq take_bit_nat_eq_self_iff)
  have up8: "unat (ucast (num_fats info) :: u32) = unat (num_fats info)"
    using unsigned_less [where ?'a = nat, of "num_fats info"]
    by (simp add: unsigned_ucast_eq take_bit_nat_eq_self_iff)
  have u_fstart: "unat (fat_start info) = unat (reserved_sector_count info)"
    unfolding fstart by (rule up16)
  have u_dstart: "unat (data_start info)
      = (unat (reserved_sector_count info) + unat (num_fats info) * unat (fat_size info))
        mod 2 ^ 32"
    unfolding dstart by (simp add: unat_word_ariths up16 up8 mod_simps)
  show ?thesis
    unfolding Let_def info_def [symmetric]
    using fstart dstart u_rsc nf u_fs u_fstart u_dstart by simp
qed

text \<open>
  Claim C3. The cluster-to-sector mapping of \<open>main\<close>,
  \<open>data_start + sectors_per_cluster * (N - 2)\<close> in unsigned 32-bit arithmetic, is affine
  in the cluster number \<open>N\<close>: the sectors of clusters \<open>N + 1\<close> and \<open>N\<close> differ by
  \<open>sectors_per_cluster\<close>. This holds for every geometry and every \<open>N\<close>, so in particular
  for every \<open>N\<close> from 2 on.
\<close>

theorem first_root_sector_affine:
  "first_root_sector (fat32\<lparr>root_cluster := N + 1\<rparr>)
     - first_root_sector (fat32\<lparr>root_cluster := N\<rparr>)
   = ucast (sectors_per_cluster fat32)"
  by (simp add: first_root_sector_def algebra_simps)

section \<open>Command framing\<close>

text \<open>
  Claim C7, as amended. Every call of \<open>sd_send_cmd\<close> asserts chip select and sends
  exactly six bytes before it polls for the response with filler bytes \<open>0xFF\<close> (one to
  eight of them): the byte \<open>0x40 OR cmd\<close>, the four bytes of the argument, most
  significant first, and the checksum byte the caller passed. In the first byte bit 6
  is set and bit 7 is the command index's bit 7, which is clear for all six commands the
  driver issues (0, 8, 55, 41, 58, 17): their top two bits are 0 and 1.
\<close>

theorem sd_send_cmd_frame:
  "(\<exists>k. 1 \<le> k \<and> k \<le> 8
      \<and> bus (snd (sd_send_cmd cmd arg crc w))
          = bus w @ CS_Low # map Xfer (cmd_frame cmd arg crc) @ replicate k (Xfer 0xFF))
   \<and> cmd_frame cmd arg crc
       = [0x40 OR cmd, ucast (drop_bit 24 arg), ucast (drop_bit 16 arg), ucast (drop_bit 8 arg),
          ucast arg, crc]
   \<and> length (cmd_frame cmd arg crc) = 6
   \<and> unat arg = 16777216 * unat (cmd_frame cmd arg crc ! 1)
        + 65536 * unat (cmd_frame cmd arg crc ! 2)
        + 256 * unat (cmd_frame cmd arg crc ! 3) + unat (cmd_frame cmd arg crc ! 4)
   \<and> cmd_frame cmd arg crc ! 5 = crc
   \<and> bit (cmd_frame cmd arg crc ! 0) 6
   \<and> bit (cmd_frame cmd arg crc ! 0) 7 = bit cmd 7
   \<and> map (\<lambda>c. drop_bit 6 (hd (cmd_frame c arg crc))) [0, 8, 55, 41, 58, 17] = [1, 1, 1, 1, 1, 1]"
proof -
  obtain k where "1 \<le> k" "k \<le> 8"
    "sd_send_cmd cmd arg crc w
       = (miso w (clock w + 6 + k - 1), advance (cmd_events cmd arg crc k) w)"
    by (rule sd_send_cmd_cases)
  then have trace: "\<exists>k. 1 \<le> k \<and> k \<le> 8
      \<and> bus (snd (sd_send_cmd cmd arg crc w))
          = bus w @ CS_Low # map Xfer (cmd_frame cmd arg crc) @ replicate k (Xfer 0xFF)"
    by (intro exI [of _ k]) (simp add: cmd_events_def)
  have nth: "cmd_frame cmd arg crc ! 0 = 0x40 OR cmd"
    "cmd_frame cmd arg crc ! 1 = ucast (drop_bit 24 arg)"
    "cmd_frame cmd arg crc ! 2 = ucast (drop_bit 16 arg)"
    "cmd_frame cmd arg crc ! 3 = ucast (drop_bit 8 arg)"
    "cmd_frame cmd arg crc ! 4 = ucast arg"
    "cmd_frame cmd arg crc ! 5 = crc"
    by (simp_all add: cmd_frame_def)
  have bits: "bit ((0x40 :: u8) OR cmd) 6" "bit ((0x40 :: u8) OR cmd) 7 = bit cmd 7"
    by (simp_all add: bit_or_iff)
  have six: "map (\<lambda>c. drop_bit 6 (hd (cmd_frame c arg crc))) [0, 8, 55, 41, 58, 17]
      = [1, 1, 1, 1, 1, 1]"
    by (simp add: cmd_frame_def)
  show ?thesis
    apply (intro conjI)
           apply (rule trace)
          apply (simp add: cmd_frame_def)
         apply (simp add: cmd_frame_def)
        apply (simp only: nth be32 [of arg, symmetric])
       apply (rule nth(6))
      apply (simp only: nth bits)
     apply (simp only: nth bits)
    apply (rule six)
    done
qed

text \<open>
  Claim C7 as stated says that the top two bits of the command byte are both set. The
  frame of CMD0 on the bus starts with \<open>0x40\<close>, whose bit 7 is clear.
\<close>

theorem sd_send_cmd_top_bits_counterexample:
  "bus (snd (sd_send_cmd 0 0 0x95 idle_card))
     = [CS_Low, Xfer 0x40, Xfer 0, Xfer 0, Xfer 0, Xfer 0, Xfer 0x95, Xfer 0xFF]
   \<and> \<not> bit (0x40 :: u8) 7"
  by (simp add: sd_send_cmd_fast idle_card_def cmd_events_def cmd_frame_def)

section \<open>Chip select\<close>

text \<open>
  Claim C8, as amended. \<open>sd_send_cmd\<close> asserts chip select before the first byte of a
  command and never deasserts it; the caller does. \<open>sd_read_sector\<close> (CMD17) asserts it,
  exchanges the command, its response and the data, and on every path deasserts it at
  the end and clocks exactly one filler byte \<open>0xFF\<close> after that. A successful \<open>sd_init\<close>
  deasserts chip select for the ten start-up filler bytes, keeps it asserted from CMD0
  over all its commands (at least five) and deasserts it once after the response of
  CMD58, followed by exactly one filler byte.
\<close>

theorem chip_select_discipline:
  "(\<exists>es. bus (snd (sd_send_cmd cmd arg crc w)) = bus w @ CS_Low # es
       \<and> CS_Low \<notin> set es \<and> CS_High \<notin> set es)
   \<and> (\<exists>es. bus (snd (snd (sd_read_sector sector buffer w)))
               = bus w @ CS_Low # CS_Low # es @ [CS_High, Xfer 0xFF]
       \<and> CS_Low \<notin> set es \<and> CS_High \<notin> set es)
   \<and> (fst (sd_init w) = 1 \<longrightarrow>
        (\<exists>es. bus (snd (sd_init w))
                = bus w @ CS_High # replicate 10 (Xfer 0xFF) @ es @ [CS_High, Xfer 0xFF]
           \<and> hd es = CS_Low \<and> 5 \<le> count_list es CS_Low \<and> CS_High \<notin> set es))"
proof (intro conjI impI)
  obtain k where "sd_send_cmd cmd arg crc w
       = (miso w (clock w + 6 + k - 1), advance (cmd_events cmd arg crc k) w)"
    by (rule sd_send_cmd_cases)
  then show "\<exists>es. bus (snd (sd_send_cmd cmd arg crc w)) = bus w @ CS_Low # es
       \<and> CS_Low \<notin> set es \<and> CS_High \<notin> set es"
    by (intro exI [of _ "map Xfer (cmd_frame cmd arg crc) @ replicate k (Xfer 0xFF)"])
       (auto simp: cmd_events_def)
next
  from sd_read_sector_trace [of sector buffer w]
  obtain k m where "snd (snd (sd_read_sector sector buffer w))
          = advance (CS_Low # cmd_events 17 sector 0xFF k @ replicate m (Xfer 0xFF)
              @ [CS_High, Xfer 0xFF]) w"
    by blast
  then show "\<exists>es. bus (snd (snd (sd_read_sector sector buffer w)))
               = bus w @ CS_Low # CS_Low # es @ [CS_High, Xfer 0xFF]
       \<and> CS_Low \<notin> set es \<and> CS_High \<notin> set es"
    by (intro exI [of _ "map Xfer (cmd_frame 17 sector 0xFF) @ replicate k (Xfer 0xFF)
          @ replicate m (Xfer 0xFF)"]) (auto simp: cmd_events_def)
next
  assume ok: "fst (sd_init w) = 1"
  from sd_init_trace [of w]
  obtain es where "snd (sd_init w)
          = advance (CS_High # replicate 10 (Xfer 0xFF) @ es
              @ (if fst (sd_init w) = 0 then [] else [CS_High, Xfer 0xFF])) w"
    "CS_High \<notin> set es" "hd es = CS_Low"
    "fst (sd_init w) = 0 \<or> fst (sd_init w) = 1 \<and> 5 \<le> count_list es CS_Low"
    by blast
  with ok show "\<exists>es. bus (snd (sd_init w))
                = bus w @ CS_High # replicate 10 (Xfer 0xFF) @ es @ [CS_High, Xfer 0xFF]
           \<and> hd es = CS_Low \<and> 5 \<le> count_list es CS_Low \<and> CS_High \<notin> set es"
    by (intro exI [of _ es]) simp
qed

theorem chip_select_discipline_witness:
  "fst (sd_init ready_card) = 1
   \<and> (\<exists>es. bus (snd (sd_init ready_card))
              = bus ready_card @ CS_High # replicate 10 (Xfer 0xFF) @ es @ [CS_High, Xfer 0xFF]
         \<and> hd es = CS_Low \<and> 5 \<le> count_list es CS_Low \<and> CS_High \<notin> set es)"
proof -
  have ok: "fst (sd_init ready_card) = 1"
    by (simp add: sd_init_ready_card)
  with chip_select_discipline [of 0 0 0 ready_card 0 "[]"] show ?thesis
    by blast
qed

text \<open>
  Claim C8 as stated has chip select deasserted, and one filler byte clocked, after
  every single command. On \<open>ready_card\<close> the two bus events after the exchange of CMD0
  are the assertion of chip select and the command byte \<open>0x48\<close> of CMD8; the whole
  initialisation issues five commands and deasserts chip select twice, once of them
  before the first command.
\<close>

theorem chip_select_held_counterexample:
  "take 2 (drop (length (bus (snd (sd_send_cmd 0 0 0x95 (spi_send_dummy 10 (SD_CS_HIGH ready_card))))))
       (bus (snd (sd_init ready_card))))
     = [CS_Low, Xfer 0x48]
   \<and> count_list (bus (snd (sd_init ready_card))) CS_Low = 5
   \<and> count_list (bus (snd (sd_init ready_card))) CS_High = 2"
proof -
  have c0: "sd_send_cmd 0 0 0x95 (spi_send_dummy 10 (SD_CS_HIGH ready_card))
      = (1, advance (cmd_events 0 0 0x95 1) (spi_send_dummy 10 (SD_CS_HIGH ready_card)))"
    using sd_send_cmd_fast [of "spi_send_dummy 10 (SD_CS_HIGH ready_card)" 0 0 "0x95"]
    by (simp add: spi_send_dummy_advance SD_CS_HIGH_advance ready_card_def)
  show ?thesis
    unfolding c0 sd_init_ready_card
    by (simp add: spi_send_dummy_advance SD_CS_HIGH_advance ready_card_def cmd_events_def
        cmd_frame_def)
qed

section \<open>Bounded polling\<close>

lemma acmd41_response_0: "acmd41_response 0 w = fst (acmd41_round w)"
  by (simp add: acmd41_response_def)

lemma acmd41_response_Suc:
  "acmd41_response (Suc n) w = acmd41_response n (snd (acmd41_round w))"
  by (simp add: acmd41_response_def)

lemma all_less_Suc_shift:
  "(\<forall>n < Suc k. P n) \<longleftrightarrow> P 0 \<and> (\<forall>n < k. P (Suc n))"
  by (metis less_Suc_eq_0_disj)

lemma sd_init_acmd41_zero:
  "t \<noteq> 0 \<Longrightarrow>
     fst (sd_init_acmd41 t w) = 0 \<longleftrightarrow> (\<forall>n < unat t. acmd41_response n w \<noteq> 0)"
proof (induction t w rule: sd_init_acmd41.induct)
  case (1 t w)
  obtain r55 w1 where c55: "sd_send_cmd 55 0 0x65 w = (r55, w1)"
    by (cases "sd_send_cmd 55 0 0x65 w")
  obtain r41 w2 where c41: "sd_send_cmd 41 0x40000000 0x77 w1 = (r41, w2)"
    by (cases "sd_send_cmd 41 0x40000000 0x77 w1")
  note step = sd_init_acmd41_step [OF c55 c41, of t]
  have round: "acmd41_round w = (r41, w2)"
    by (simp add: acmd41_round_def c55 c41)
  have t: "unat t = Suc (unat (t - 1))"
    using u16_dec [OF "1.prems"] by simp
  have split: "(\<forall>n < unat t. acmd41_response n w \<noteq> 0)
      \<longleftrightarrow> r41 \<noteq> 0 \<and> (\<forall>n < unat (t - 1). acmd41_response n w2 \<noteq> 0)"
    unfolding t all_less_Suc_shift acmd41_response_0 acmd41_response_Suc round by simp
  consider (accept) "r41 = 0" | (again) "r41 \<noteq> 0" "t - 1 \<noteq> 0"
    | (exhausted) "r41 \<noteq> 0" "t - 1 = 0"
    by blast
  then show ?case
  proof cases
    case accept
    with "1.prems" show ?thesis
      unfolding step split by simp
  next
    case again
    from "1.IH" [OF c55 [symmetric] c41 [symmetric] again again(2)]
    have "fst (sd_init_acmd41 (t - 1) w2) = 0
        \<longleftrightarrow> (\<forall>n < unat (t - 1). acmd41_response n w2 \<noteq> 0)" .
    with again show ?thesis
      unfolding step split by simp
  next
    case exhausted
    then show ?thesis
      unfolding step split by simp
  qed
qed

lemma sd_init_acmd41_ceiling:
  "fst (sd_init_acmd41 0xFFFF w) = 0 \<longleftrightarrow> (\<forall>n < 65535. acmd41_response n w \<noteq> 0)"
  using sd_init_acmd41_zero [of "0xFFFF" w] by simp

lemma acmd41_entry_advance:
  "acmd41_entry w = advance (replicate 4 (Xfer 0xFF))
     (snd (sd_send_cmd 8 0x1AA 0x87
        (snd (sd_send_cmd 0 0 0x95 (advance (CS_High # replicate 10 (Xfer 0xFF)) w)))))"
  unfolding acmd41_entry_def Let_def xfer4
  by (simp add: spi_send_dummy_advance SD_CS_HIGH_advance)

lemma sd_init_exhausted:
  assumes "\<forall>n < 65535. acmd41_response n (acmd41_entry w) \<noteq> 0"
  shows "fst (sd_init w) = 0"
proof -
  let ?w0 = "advance (CS_High # replicate 10 (Xfer 0xFF)) w"
  obtain r0 w1 where c0: "sd_send_cmd 0 0 0x95 ?w0 = (r0, w1)"
    by (cases "sd_send_cmd 0 0 0x95 ?w0")
  obtain r8 w2 where c8: "sd_send_cmd 8 0x1AA 0x87 w1 = (r8, w2)"
    by (cases "sd_send_cmd 8 0x1AA 0x87 w1")
  let ?w3 = "advance (replicate 4 (Xfer 0xFF)) w2"
  obtain t' w4 where ca: "sd_init_acmd41 0xFFFF ?w3 = (t', w4)"
    by (cases "sd_init_acmd41 0xFFFF ?w3")
  obtain r58 w5 where c58: "sd_send_cmd 58 0 0xFD w4 = (r58, w5)"
    by (cases "sd_send_cmd 58 0 0xFD w4")
  have entry: "acmd41_entry w = ?w3"
    by (simp add: acmd41_entry_advance c0 c8)
  from assms have "fst (sd_init_acmd41 0xFFFF ?w3) = 0"
    unfolding sd_init_acmd41_ceiling entry .
  with ca have "t' = 0" by simp
  then show ?thesis
    using sd_init_step [OF c0 c8 ca c58] by simp
qed

lemma token_entry_fields [simp]:
  "miso (token_entry sector w) = miso w"
  unfolding token_entry_def
  by (rule sd_send_cmd_obtain [of 17 sector "0xFF" "SD_CS_LOW w"]) (simp add: SD_CS_LOW_advance)

lemma sd_read_sector_result:
  "fst (sd_read_sector sector buffer w) = 0
     \<longleftrightarrow> fst (sd_send_cmd 17 sector 0xFF (SD_CS_LOW w)) \<noteq> 0
         \<or> (\<forall>j < 65535. miso w (clock (token_entry sector w) + j) \<noteq> 0xFE)"
proof -
  obtain r w1 where c: "sd_send_cmd 17 sector 0xFF (advance [CS_Low] w) = (r, w1)"
    by (cases "sd_send_cmd 17 sector 0xFF (advance [CS_Low] w)")
  obtain t' w2 where tok: "sd_read_token 0xFFFF w1 = (t', w2)"
    by (cases "sd_read_token 0xFFFF w1")
  have w1: "token_entry sector w = w1"
    by (simp add: token_entry_def SD_CS_LOW_advance c)
  have m: "miso w1 = miso w"
    using token_entry_fields [of sector w] unfolding w1 .
  have "t' = 0 \<longleftrightarrow> (\<forall>j < 65535. miso w (clock w1 + j) \<noteq> 0xFE)"
    using sd_read_token_ceiling [of w1] by (simp add: tok m)
  then show ?thesis
    using sd_read_sector_step [OF c tok, of buffer] by (simp add: SD_CS_LOW_advance c w1)
qed

subsection \<open>Rounds on a card that answers \<open>0x01\<close> at once\<close>

lemma acmd41_round_idle:
  assumes "miso w (clock w + 6) = 1" "miso w (clock w + 13) = 1"
  shows "acmd41_round w
    = (1, advance (cmd_events 55 0 0x65 1 @ cmd_events 41 0x40000000 0x77 1) w)"
proof -
  let ?w1 = "advance (cmd_events 55 0 0x65 1) w"
  have c55: "sd_send_cmd 55 0 0x65 w = (1, ?w1)"
    using assms(1) sd_send_cmd_fast [of w 55 0 "0x65"] by simp
  have c41: "sd_send_cmd 41 0x40000000 0x77 ?w1
      = (1, advance (cmd_events 41 0x40000000 0x77 1) ?w1)"
    using assms(2) sd_send_cmd_fast [of ?w1 41 "0x40000000" "0x77"] by (simp add: add.commute)
  show ?thesis
    unfolding acmd41_round_def c55 snd_conv c41 by simp
qed

lemma acmd41_response_idle:
  assumes "\<forall>j. clock w \<le> j \<and> j < clock w + 14 * N \<longrightarrow> miso w j = 1" "n < N"
  shows "acmd41_response n w = 1"
  using assms
proof (induction n arbitrary: w N)
  case 0
  then have "miso w (clock w + 6) = 1" "miso w (clock w + 13) = 1"
    by simp_all
  then show ?case
    by (simp add: acmd41_response_0 acmd41_round_idle)
next
  case (Suc n)
  then have m: "miso w (clock w + 6) = 1" "miso w (clock w + 13) = 1"
    by simp_all
  let ?w' = "advance (cmd_events 55 0 0x65 1 @ cmd_events 41 0x40000000 0x77 1) w"
  have r: "acmd41_round w = (1, ?w')"
    using m by (rule acmd41_round_idle)
  have c: "clock ?w' = clock w + 14" "miso ?w' = miso w"
    by simp_all
  have "acmd41_response n ?w' = 1"
  proof (rule Suc.IH [of ?w' "N - 1"])
    show "\<forall>j. clock ?w' \<le> j \<and> j < clock ?w' + 14 * (N - 1) \<longrightarrow> miso ?w' j = 1"
      unfolding c using Suc.prems by auto
    show "n < N - 1"
      using Suc.prems by simp
  qed
  then show ?case
    by (simp add: acmd41_response_Suc r)
qed

lemma acmd41_entry_late_card:
  "clock (acmd41_entry late_card) = 28 \<and> miso (acmd41_entry late_card) = miso late_card"
proof -
  let ?w0 = "advance (CS_High # replicate 10 (Xfer 0xFF)) late_card"
  let ?w1 = "advance (cmd_events 0 0 0x95 1) ?w0"
  have c0: "sd_send_cmd 0 0 0x95 ?w0 = (1, ?w1)"
    using sd_send_cmd_fast [of ?w0 0 0 "0x95"] by (simp add: late_card_def)
  have c8: "sd_send_cmd 8 0x1AA 0x87 ?w1 = (1, advance (cmd_events 8 0x1AA 0x87 1) ?w1)"
    using sd_send_cmd_fast [of ?w1 8 "0x1AA" "0x87"] by (simp add: late_card_def)
  show ?thesis
    unfolding acmd41_entry_advance c0 snd_conv c8 by (simp add: late_card_def)
qed

lemma late_card_exhausts:
  "\<forall>n < 65535. acmd41_response n (acmd41_entry late_card) \<noteq> 0"
proof (intro allI impI)
  fix n :: nat assume n: "n < 65535"
  have "acmd41_response n (acmd41_entry late_card) = 1"
  proof (rule acmd41_response_idle [OF _ n])
    show "\<forall>j. clock (acmd41_entry late_card) \<le> j
        \<and> j < clock (acmd41_entry late_card) + 14 * 65535
      \<longrightarrow> miso (acmd41_entry late_card) j = 1"
      by (simp add: acmd41_entry_late_card) (simp add: late_card_def)
  qed
  then show "acmd41_response n (acmd41_entry late_card) \<noteq> 0"
    by simp
qed

lemma token_entry_late_token_card:
  "sd_send_cmd 17 0 0xFF (SD_CS_LOW late_token_card)
     = (0, advance (CS_Low # cmd_events 17 0 0xFF 1) late_token_card)"
  using sd_send_cmd_fast [of "advance [CS_Low] late_token_card" 17 0 "0xFF"]
  by (simp add: SD_CS_LOW_advance late_token_card_def)

lemma late_token_card_exhausts:
  "\<forall>j < 65535. miso late_token_card (clock (token_entry 0 late_token_card) + j) \<noteq> 0xFE"
  by (simp add: token_entry_def token_entry_late_token_card) (simp add: late_token_card_def)

lemma token_entry_last_token_card:
  "sd_send_cmd 17 0 0xFF (SD_CS_LOW last_token_card)
     = (0, advance (CS_Low # cmd_events 17 0 0xFF 1) last_token_card)"
  using sd_send_cmd_fast [of "advance [CS_Low] last_token_card" 17 0 "0xFF"]
  by (simp add: SD_CS_LOW_advance last_token_card_def)

lemma last_token_card_in_time:
  "\<not> (\<forall>j < 65535. miso last_token_card (clock (token_entry 0 last_token_card) + j) \<noteq> 0xFE)"
proof
  assume "\<forall>j < 65535. miso last_token_card (clock (token_entry 0 last_token_card) + j) \<noteq> 0xFE"
  then have "miso last_token_card (clock (token_entry 0 last_token_card) + 65534) \<noteq> 0xFE"
    by simp
  then show False
    by (simp add: token_entry_def token_entry_last_token_card) (simp add: last_token_card_def)
qed

subsection \<open>The ceilings\<close>

text \<open>
  Claim C5. \<open>sd_init\<close> and \<open>sd_read_sector\<close> are total functions of the card's response
  sequence, and they return after a bounded number of byte exchanges whatever the card
  answers: at most 1835041 for \<open>sd_init\<close> and 66064 for \<open>sd_read_sector\<close>. The data-token
  loop exchanges at most \<open>0xFFFF\<close> bytes and ends with \<open>t = 0\<close> exactly when none of
  the \<open>0xFFFF\<close> bytes it read is the token \<open>0xFE\<close>. The ACMD41 loop runs at most
  \<open>0xFFFF\<close> times (it issues two commands per round), and it ends with \<open>timeout = 0\<close>
  exactly when none of its \<open>0xFFFF\<close> rounds got the response \<open>0x00\<close> to ACMD41.

  Exhausting a ceiling is failure, whatever the card sends afterwards: when the
  ACMD41 loop of \<open>sd_init\<close> ends with \<open>timeout = 0\<close>, that is when none of the \<open>0xFFFF\<close>
  rounds run from the state in which \<open>sd_init\<close> enters the loop is answered \<open>0x00\<close>,
  \<open>sd_init\<close> returns 0; and \<open>sd_read_sector\<close> returns 0 exactly when CMD17 is not
  answered \<open>0x00\<close> or the token loop ends with \<open>t = 0\<close>, that is when none of the
  \<open>0xFFFF\<close> bytes after the response to CMD17 is \<open>0xFE\<close>. In particular a card that
  never answers \<open>0x00\<close> makes \<open>sd_init\<close> return 0, and a card that never sends \<open>0xFE\<close>
  makes \<open>sd_read_sector\<close> return 0.
\<close>

theorem polling_ceilings:
  "clock (snd (sd_init w)) \<le> clock w + 1835041
   \<and> clock (snd (snd (sd_read_sector sector buffer w))) \<le> clock w + 66064
   \<and> (\<exists>n. 1 \<le> n \<and> n \<le> 65535 \<and> clock (snd (sd_read_token 0xFFFF w)) = clock w + n)
   \<and> (fst (sd_read_token 0xFFFF w) = 0 \<longleftrightarrow> (\<forall>j < 65535. miso w (clock w + j) \<noteq> 0xFE))
   \<and> (\<exists>es n. bus (snd (sd_init_acmd41 0xFFFF w)) = bus w @ es
          \<and> count_list es CS_Low = 2 * n \<and> 1 \<le> n \<and> n \<le> 65535
          \<and> (fst (sd_init_acmd41 0xFFFF w) = 0 \<longrightarrow> n = 65535))
   \<and> ((\<forall>n. miso w n \<noteq> 0x00) \<longrightarrow> fst (sd_init w) = 0)
   \<and> ((\<forall>n. miso w n \<noteq> 0xFE) \<longrightarrow> fst (sd_read_sector sector buffer w) = 0)
   \<and> (fst (sd_init_acmd41 0xFFFF w) = 0 \<longleftrightarrow> (\<forall>n < 65535. acmd41_response n w \<noteq> 0x00))
   \<and> (fst (sd_init_acmd41 0xFFFF (acmd41_entry w)) = 0 \<longrightarrow> fst (sd_init w) = 0)
   \<and> ((\<forall>n < 65535. acmd41_response n (acmd41_entry w) \<noteq> 0x00) \<longrightarrow> fst (sd_init w) = 0)
   \<and> (fst (sd_read_sector sector buffer w) = 0
        \<longleftrightarrow> fst (sd_send_cmd 17 sector 0xFF (SD_CS_LOW w)) \<noteq> 0x00
            \<or> fst (sd_read_token 0xFFFF (token_entry sector w)) = 0)
   \<and> (fst (sd_read_sector sector buffer w) = 0
        \<longleftrightarrow> fst (sd_send_cmd 17 sector 0xFF (SD_CS_LOW w)) \<noteq> 0x00
            \<or> (\<forall>j < 65535. miso w (clock (token_entry sector w) + j) \<noteq> 0xFE))"
proof -
  from sd_init_trace [of w]
  obtain es where "snd (sd_init w)
          = advance (CS_High # replicate 10 (Xfer 0xFF) @ es
              @ (if fst (sd_init w) = 0 then [] else [CS_High, Xfer 0xFF])) w"
    "xfers es \<le> init_bound"
    by blast
  then have c1: "clock (snd (sd_init w)) \<le> clock w + 1835041"
    by (simp add: init_bound_def)
  from sd_read_sector_trace [of sector buffer w]
  obtain k m where "k \<le> 8" "m \<le> 65535 + 512 + 2"
    "snd (snd (sd_read_sector sector buffer w))
          = advance (CS_Low # cmd_events 17 sector 0xFF k @ replicate m (Xfer 0xFF)
              @ [CS_High, Xfer 0xFF]) w"
    by blast
  then have c2: "clock (snd (snd (sd_read_sector sector buffer w))) \<le> clock w + 66064"
    by simp
  obtain t' w' n where "sd_read_token 0xFFFF w = (t', w')"
    "w' = advance (replicate n (Xfer 0xFF)) w" "1 \<le> n" "n \<le> unat ((0xFFFF :: u16) - 1) + 1"
    by (rule sd_read_token_obtain)
  then have c3: "\<exists>n. 1 \<le> n \<and> n \<le> 65535 \<and> clock (snd (sd_read_token 0xFFFF w)) = clock w + n"
    by (intro exI [of _ n]) simp
  have c4: "fst (sd_read_token 0xFFFF w) = 0 \<longleftrightarrow> (\<forall>j < 65535. miso w (clock w + j) \<noteq> 0xFE)"
    by (rule sd_read_token_ceiling)
  obtain t' w' es n where "sd_init_acmd41 0xFFFF w = (t', w')" "w' = advance es w"
    "count_list es CS_Low = 2 * n" "1 \<le> n" "n \<le> unat ((0xFFFF :: u16) - 1) + 1"
    "t' = 0 \<and> (0xFFFF :: u16) \<noteq> 0 \<longrightarrow> n = unat (0xFFFF :: u16)"
    by (rule sd_init_acmd41_obtain)
  then have c5: "\<exists>es n. bus (snd (sd_init_acmd41 0xFFFF w)) = bus w @ es
          \<and> count_list es CS_Low = 2 * n \<and> 1 \<le> n \<and> n \<le> 65535
          \<and> (fst (sd_init_acmd41 0xFFFF w) = 0 \<longrightarrow> n = 65535)"
    by (intro exI [of _ es] exI [of _ n]) simp
  have c6: "(\<forall>n. miso w n \<noteq> 0x00) \<longrightarrow> fst (sd_init w) = 0"
    by (intro impI sd_init_never_ready) simp
  have c7: "(\<forall>n. miso w n \<noteq> 0xFE) \<longrightarrow> fst (sd_read_sector sector buffer w) = 0"
    by (intro impI sd_read_sector_no_token) simp
  have c8: "fst (sd_init_acmd41 0xFFFF w) = 0 \<longleftrightarrow> (\<forall>n < 65535. acmd41_response n w \<noteq> 0x00)"
    by (rule sd_init_acmd41_ceiling)
  have c10: "(\<forall>n < 65535. acmd41_response n (acmd41_entry w) \<noteq> 0x00) \<longrightarrow> fst (sd_init w) = 0"
    by (intro impI sd_init_exhausted)
  have c9: "fst (sd_init_acmd41 0xFFFF (acmd41_entry w)) = 0 \<longrightarrow> fst (sd_init w) = 0"
    using c10 unfolding sd_init_acmd41_ceiling .
  have c12: "fst (sd_read_sector sector buffer w) = 0
        \<longleftrightarrow> fst (sd_send_cmd 17 sector 0xFF (SD_CS_LOW w)) \<noteq> 0x00
            \<or> (\<forall>j < 65535. miso w (clock (token_entry sector w) + j) \<noteq> 0xFE)"
    by (rule sd_read_sector_result)
  have c11: "fst (sd_read_sector sector buffer w) = 0
        \<longleftrightarrow> fst (sd_send_cmd 17 sector 0xFF (SD_CS_LOW w)) \<noteq> 0x00
            \<or> fst (sd_read_token 0xFFFF (token_entry sector w)) = 0"
    unfolding c12 sd_read_token_ceiling token_entry_fields ..
  show ?thesis
    by (intro conjI) (fact c1 c2 c3 c4 c5 c6 c7 c8 c9 c10 c11 c12)+
qed

text \<open>
  Examples. \<open>idle_card\<close> and \<open>silent_card\<close> never send the expected byte. \<open>late_card\<close>
  sends \<open>0x00\<close> only after the ACMD41 loop has run \<open>0xFFFF\<close> times, where CMD58 would
  read it as its response: \<open>sd_init\<close> returns 0. \<open>late_token_card\<close> accepts CMD17 and
  sends the token one exchange after the ceiling: \<open>sd_read_sector\<close> returns 0;
  \<open>last_token_card\<close> sends it in the last exchange under the ceiling, and the read
  does not fail.
\<close>

theorem polling_ceilings_witness:
  "(\<forall>n. miso idle_card n \<noteq> 0x00) \<and> fst (sd_init idle_card) = 0
   \<and> (\<forall>n. miso silent_card n \<noteq> 0xFE) \<and> fst (sd_read_sector 0 [] silent_card) = 0
   \<and> fst (sd_read_token 0xFFFF silent_card) = 0
   \<and> miso late_card 917524 = 0x00
   \<and> fst (sd_init_acmd41 0xFFFF (acmd41_entry late_card)) = 0
   \<and> fst (sd_init late_card) = 0
   \<and> miso late_token_card 65542 = 0xFE
   \<and> fst (sd_send_cmd 17 0 0xFF (SD_CS_LOW late_token_card)) = 0x00
   \<and> fst (sd_read_token 0xFFFF (token_entry 0 late_token_card)) = 0
   \<and> fst (sd_read_sector 0 (replicate 512 0) late_token_card) = 0
   \<and> miso last_token_card 65541 = 0xFE
   \<and> fst (sd_send_cmd 17 0 0xFF (SD_CS_LOW last_token_card)) = 0x00
   \<and> fst (sd_read_sector 0 (replicate 512 0) last_token_card) \<noteq> 0"
proof -
  have idle: "\<forall>n. miso idle_card n \<noteq> 0x00"
    by (simp add: idle_card_def)
  have silent: "\<forall>n. miso silent_card n \<noteq> 0xFE"
    by (simp add: silent_card_def)
  then have silent': "\<forall>j < 65535. miso silent_card (clock silent_card + j) \<noteq> 0xFE"
    by simp
  note a = polling_ceilings [of idle_card 0 "[]"]
  note b = polling_ceilings [of silent_card 0 "[]"]
  note c = polling_ceilings [of late_card 0 "[]"]
  note d = polling_ceilings [of late_token_card 0 "replicate 512 0"]
  note e = polling_ceilings [of last_token_card 0 "replicate 512 0"]
  have 1: "fst (sd_init idle_card) = 0"
    using a idle by blast
  have 2: "fst (sd_read_sector 0 [] silent_card) = 0"
    using b silent by blast
  have 3: "fst (sd_read_token 0xFFFF silent_card) = 0"
    using b silent' by blast
  have 4: "miso late_card 917524 = 0x00" "miso late_token_card 65542 = 0xFE"
    "miso last_token_card 65541 = 0xFE"
    by (simp_all add: late_card_def late_token_card_def last_token_card_def)
  have 5: "fst (sd_init_acmd41 0xFFFF (acmd41_entry late_card)) = 0"
    using polling_ceilings [of "acmd41_entry late_card" 0 "[]"] late_card_exhausts by blast
  have 6: "fst (sd_init late_card) = 0"
    using c late_card_exhausts by blast
  have 7: "fst (sd_send_cmd 17 0 0xFF (SD_CS_LOW late_token_card)) = 0x00"
    "fst (sd_send_cmd 17 0 0xFF (SD_CS_LOW last_token_card)) = 0x00"
    by (simp_all add: token_entry_late_token_card token_entry_last_token_card)
  have 8: "fst (sd_read_sector 0 (replicate 512 0) late_token_card) = 0"
    using d late_token_card_exhausts by blast
  have 9: "fst (sd_read_token 0xFFFF (token_entry 0 late_token_card)) = 0"
    using d 7(1) 8 by blast
  have 10: "fst (sd_read_sector 0 (replicate 512 0) last_token_card) \<noteq> 0"
    using e 7(2) last_token_card_in_time by blast
  show ?thesis
    by (intro conjI) (fact idle silent 1 2 3 4 5 6 7 8 9 10)+
qed

section \<open>Properties of the output functions\<close>

lemma usart0_puts_eq:
  "usart0_puts str w = w\<lparr>uart := uart w @ takeWhile (\<lambda>c. c \<noteq> 0) str\<rparr>"
  by (induction str arbitrary: w) (simp_all add: usart0_putc_def)

lemma usart0_print_hex_eq:
  "\<exists>a b. usart0_print_hex v w = w\<lparr>uart := uart w @ [a, b]\<rparr>"
  unfolding usart0_print_hex_def Let_def usart0_putc_def by (intro exI) simp

lemma dec_digits_step:
  "dec_digits n = (if n < 10 then [of_nat (48 + n)]
                   else dec_digits (n div 10) @ [of_nat (48 + n mod 10)])"
  by (rule dec_digits.simps)

lemma unat_digit: "unat (of_nat (48 + d) :: u8) = 48 + d" if "d < 10"
proof -
  have "unat (word_of_nat (48 + d) :: u8) = take_bit 8 (48 + d)"
    by (simp only: unsigned_of_nat len_of_numeral_defs) simp
  also have "\<dots> = 48 + d"
    by (rule take_bit_nat_eq_self) (use that in simp)
  finally show ?thesis .
qed

lemma unat_digit': "unat (48 + word_of_nat d :: u8) = 48 + d" if "d < 10"
  using unat_digit [OF that] by simp

lemma dec_value_dec_digits: "dec_value (dec_digits n) = n"
proof (induction n rule: dec_digits.induct)
  case (1 n)
  show ?case
  proof (cases "n < 10")
    case True
    then show ?thesis
      by (subst dec_digits_step) (simp add: dec_value_def unat_digit')
  next
    case False
    have "n mod 10 < 10" by simp
    then have d: "unat (48 + word_of_nat (n mod 10) :: u8) = 48 + n mod 10"
      by (rule unat_digit')
    have "dec_value (dec_digits n) = 10 * dec_value (dec_digits (n div 10)) + n mod 10"
      using False by (subst dec_digits_step) (simp add: dec_value_def d)
    with "1.IH" [OF False] show ?thesis by simp
  qed
qed

lemma dec_digits_inj: "dec_digits m = dec_digits n \<Longrightarrow> m = n"
  by (metis dec_value_dec_digits)

lemma dec_digits_range: "c \<in> set (dec_digits n) \<Longrightarrow> 48 \<le> unat c \<and> unat c \<le> 57"
proof (induction n rule: dec_digits.induct)
  case (1 n)
  show ?case
  proof (cases "n < 10")
    case True
    with "1.prems" have "c = of_nat (48 + n)"
      by (subst (asm) dec_digits_step) simp
    with True show ?thesis by (simp add: unat_digit')
  next
    case False
    have "n mod 10 < 10" by simp
    then have d: "unat (48 + word_of_nat (n mod 10) :: u8) = 48 + n mod 10"
      by (rule unat_digit')
    from "1.prems" False have "c \<in> set (dec_digits (n div 10)) \<or> c = of_nat (48 + n mod 10)"
      by (subst (asm) dec_digits_step) auto
    then show ?thesis
    proof
      assume "c \<in> set (dec_digits (n div 10))"
      with "1.IH" [OF False] show ?thesis by simp
    next
      assume "c = of_nat (48 + n mod 10)"
      with d show ?thesis by simp
    qed
  qed
qed

lemma dec_digits_nonempty: "dec_digits n \<noteq> []"
  by (subst dec_digits_step) simp

lemma dec_digits_no_nul: "takeWhile (\<lambda>c. c \<noteq> 0) (dec_digits n @ 0 # rest) = dec_digits n"
proof -
  have "c \<noteq> 0" if "c \<in> set (dec_digits n)" for c
    using dec_digits_range [OF that] by auto
  then show ?thesis
    by (simp add: takeWhile_append2)
qed

lemma dec_digits_not_minus: "dec_digits n \<noteq> 0x2D # cs"
proof
  assume "dec_digits n = 0x2D # cs"
  then have "(0x2D :: u8) \<in> set (dec_digits n)" by simp
  from dec_digits_range [OF this] show False by simp
qed

lemma sint_u16:
  fixes x :: u16
  shows "sint x = (if unat x < 32768 then int (unat x) else int (unat x) - 65536)"
proof -
  define k where "k = int (unat x)"
  have lt: "unat x < 65536"
    using unsigned_less [where ?'a = nat, of x] by simp
  have k: "0 \<le> k" "k < 65536"
    using unsigned_less [where ?'a = int, of x] by (simp_all add: k_def)
  have s: "sint x = (k + 32768) mod 65536 - 32768"
    by (simp add: sint_uint signed_take_bit_eq_take_bit_shift take_bit_eq_mod k_def)
  have c: "unat x < 32768 \<longleftrightarrow> k < 32768"
    unfolding k_def by linarith
  show ?thesis
  proof (cases "unat x < 32768")
    case True
    then have "k < 32768" by (simp only: c)
    with k have "(k + 32768) mod 65536 = k + 32768"
      by (intro mod_pos_pos_trivial) simp_all
    with s True show ?thesis by (simp add: k_def)
  next
    case False
    then have ge: "32768 \<le> k" by (simp only: c not_less)
    have "k + 32768 = (k - 32768) + 65536"
      by simp
    then have "(k + 32768) mod 65536 = ((k - 32768) + 65536) mod 65536"
      by (rule arg_cong)
    also have "\<dots> = (k - 32768) mod 65536"
      by (rule mod_add_self2)
    also have "\<dots> = k - 32768"
      using k ge by (intro mod_pos_pos_trivial) simp_all
    finally show ?thesis
      using s False by (simp add: k_def)
  qed
qed

lemma unat_narrow: "unat (ucast v :: u16) = unat v mod 65536" for v :: u32
  by (simp add: unsigned_ucast_eq take_bit_eq_mod)

lemma itoa_narrow:
  fixes v :: u32
  shows "itoa (ucast v) = dec_digits (unat v) @ [0] \<longleftrightarrow> unat v \<le> 32767"
proof (cases "unat v \<le> 32767")
  case True
  then have "unat (ucast v :: u16) = unat v"
    by (simp add: unat_narrow)
  with True have "sint (ucast v :: u16) = int (unat v)"
    by (simp add: sint_u16)
  with True show ?thesis
    by (simp add: itoa_def)
next
  case False
  let ?x = "ucast v :: u16"
  have m: "unat ?x = unat v mod 65536"
    by (rule unat_narrow)
  have "itoa ?x \<noteq> dec_digits (unat v) @ [0]"
  proof (cases "unat ?x < 32768")
    case True
    then have s: "sint ?x = int (unat ?x)"
      by (simp add: sint_u16)
    from True False have "unat ?x \<noteq> unat v" by simp
    then have "dec_digits (unat ?x) \<noteq> dec_digits (unat v)"
      using dec_digits_inj by blast
    then show ?thesis
      by (simp add: itoa_def s)
  next
    case neg: False
    then have "sint ?x < 0"
      using unsigned_less [where ?'a = int, of ?x] by (simp add: sint_u16)
    then show ?thesis
      using dec_digits_not_minus [of "unat v"] by (simp add: itoa_def) metis
  qed
  with False show ?thesis by simp
qed

lemma lit_no_nul_examples:
  "takeWhile (\<lambda>c. c \<noteq> 0) (cstr ''Name: '') = lit ''Name: ''"
  "takeWhile (\<lambda>c. c \<noteq> 0) (cstr '' | Attr: '') = lit '' | Attr: ''"
  "takeWhile (\<lambda>c. c \<noteq> 0) (cstr '' | Size: '') = lit '' | Size: ''"
  "takeWhile (\<lambda>c. c \<noteq> 0) (crlf @ [0]) = crlf"
  by (simp_all add: cstr_def lit_def crlf_def)

lemma itoa_no_nul: "takeWhile (\<lambda>c. c \<noteq> 0) (itoa x) = butlast (itoa x)"
  by (simp add: itoa_def dec_digits_no_nul butlast_append dec_digits_nonempty)

lemma print_dir_entry_skip:
  "\<not> is_regular entry \<Longrightarrow> print_dir_entry entry w = w"
  by (auto simp: print_dir_entry_def is_regular_def)

lemma print_dir_entry_regular:
  assumes "is_regular entry"
  shows "\<exists>name a b. print_dir_entry entry w
    = w\<lparr>uart := uart w @ lit ''Name: '' @ name @ lit '' | Attr: '' @ [a, b]
          @ lit '' | Size: '' @ butlast (itoa (ucast (le32 entry 28))) @ crlf\<rparr>"
proof -
  have skip: "\<not> (entry ! 0 = 0x00 \<or> entry ! 0 = 0xE5 \<or> entry ! 11 AND 0x08 \<noteq> 0)"
    using assms by (simp add: is_regular_def)
  define w1 where "w1 = usart0_puts (cstr ''Name: '') w"
  obtain name where w2: "print_filename entry w1 = w1\<lparr>uart := uart w1 @ name\<rparr>"
    unfolding print_filename_def Let_def usart0_puts_eq by blast
  define w3 where "w3 = usart0_puts (cstr '' | Attr: '') (print_filename entry w1)"
  obtain a b where w4: "usart0_print_hex (entry ! 11) w3 = w3\<lparr>uart := uart w3 @ [a, b]\<rparr>"
    using usart0_print_hex_eq by blast
  have "print_dir_entry entry w
    = usart0_puts (crlf @ [0]) (usart0_puts (itoa (ucast (le32 entry 28)))
        (usart0_puts (cstr '' | Size: '') (usart0_print_hex (entry ! 11) w3)))"
    using skip by (simp add: print_dir_entry_def Let_def w3_def w1_def)
  also have "\<dots> = w\<lparr>uart := uart w @ lit ''Name: '' @ name @ lit '' | Attr: '' @ [a, b]
          @ lit '' | Size: '' @ butlast (itoa (ucast (le32 entry 28))) @ crlf\<rparr>"
    unfolding w4 unfolding w3_def w2 unfolding w1_def
    by (simp add: usart0_puts_eq lit_no_nul_examples itoa_no_nul)
  finally show ?thesis by blast
qed

lemma print_dir_entries_from:
  "k \<le> 16 \<Longrightarrow> print_dir_entries (32 * k) sector w
     = fold (\<lambda>i. print_dir_entry (drop (32 * i) sector)) [k..<16] w"
proof (induction "16 - k" arbitrary: k w)
  case 0
  then have "k = 16" by simp
  then show ?case
    by (subst print_dir_entries.simps) (simp add: SECTOR_SIZE_def)
next
  case (Suc n)
  then have k: "k < 16" and n: "n = 16 - Suc k" by simp_all
  have step: "print_dir_entries (32 * k) sector w
      = print_dir_entries (32 * Suc k) sector (print_dir_entry (drop (32 * k) sector) w)"
    using k by (subst print_dir_entries.simps) (simp add: SECTOR_SIZE_def add.commute)
  have "[k..<16] = k # [Suc k..<16]"
    using k by (simp add: upt_conv_Cons)
  then show ?case
    unfolding step using Suc.hyps(1) [OF n, of "print_dir_entry (drop (32 * k) sector) w"] k
    by simp
qed

lemma print_dir_entries_fold:
  "print_dir_entries 0 sector w
     = fold (\<lambda>i. print_dir_entry (drop (32 * i) sector)) [0..<16] w"
  using print_dir_entries_from [of 0 sector w] by simp

lemma copy_name_take:
  "hi \<le> n \<Longrightarrow> copy_name i hi (take n entry) name = copy_name i hi entry name"
proof (induction i hi entry name rule: copy_name.induct)
  case (1 i hi entry name)
  show ?case
  proof (cases "i < hi")
    case True
    with "1.prems" have nth: "take n entry ! i = entry ! i" by simp
    show ?thesis
    proof (cases "entry ! i = 0x20")
      case sp: True
      with True nth show ?thesis
        by (subst (1 2) copy_name.simps) simp
    next
      case nsp: False
      have "copy_name i hi (take n entry) name
          = copy_name (i + 1) hi (take n entry) (name @ [entry ! i])"
        using True nsp nth by (subst copy_name.simps) simp
      also have "\<dots> = copy_name (i + 1) hi entry (name @ [entry ! i])"
        using "1.IH" [OF True nsp "1.prems"] .
      also have "\<dots> = copy_name i hi entry name"
        using True nsp by (subst (2) copy_name.simps) simp
      finally show ?thesis .
    qed
  next
    case False
    then show ?thesis
      by (subst (1 2) copy_name.simps) simp
  qed
qed

lemma print_dir_entry_take: "print_dir_entry (take 32 entry) w = print_dir_entry entry w"
  by (simp add: print_dir_entry_def print_filename_def Let_def copy_name_take le32_def)

lemma slot_nth:
  "length sector = 512 \<Longrightarrow> i < 16 \<Longrightarrow> j < 32 \<Longrightarrow> drop (32 * i) sector ! j = sector ! (32 * i + j)"
  by (simp add: nth_drop)

lemma copy_name_eval:
  "i < hi \<Longrightarrow> entry ! i = 0x20 \<Longrightarrow> copy_name i hi entry name = name"
  "i < hi \<Longrightarrow> entry ! i \<noteq> 0x20
     \<Longrightarrow> copy_name i hi entry name = copy_name (i + 1) hi entry (name @ [entry ! i])"
  "\<not> i < hi \<Longrightarrow> copy_name i hi entry name = name"
  by (subst copy_name.simps, simp)+

lemma dec_digits_eval:
  "n < 10 \<Longrightarrow> dec_digits n = [of_nat (48 + n)]"
  "\<not> n < 10 \<Longrightarrow> dec_digits n = dec_digits (n div 10) @ [of_nat (48 + n mod 10)]"
  by (subst dec_digits.simps, simp)+

lemma hello_bytes:
  "hello_entry = [72, 69, 76, 76, 79, 32, 32, 32, 84, 88, 84, 32,
     0, 0, 0, 0, 0, 0, 0, 0, 0, 0, 0, 0, 0, 0, 0, 0, 10, 0, 0, 0]"
  by (simp add: hello_entry_def lit_def numeral_eq_Suc)

lemma print_hello:
  "print_dir_entry hello_entry w
     = w\<lparr>uart := uart w @ lit ''Name: HELLO.TXT | Attr: 20 | Size: 10'' @ crlf\<rparr>"
  unfolding hello_bytes
  by (simp add: print_dir_entry_def print_filename_def Let_def copy_name_eval usart0_puts_eq
      usart0_print_hex_def usart0_putc_def cstr_def lit_def crlf_def le32_def itoa_def
      dec_digits_eval)

lemma fold_skip: "(\<And>i w. i \<in> set xs \<Longrightarrow> f i w = w) \<Longrightarrow> fold f xs w = w"
  by (induction xs arbitrary: w) simp_all

lemma length_hello_entry: "length hello_entry = 32"
  by (simp add: hello_bytes)

lemma print_dir_after_free:
  "print_dir_entries 0 dir_after_free w
     = w\<lparr>uart := uart w @ lit ''Name: HELLO.TXT | Attr: 20 | Size: 10'' @ crlf\<rparr>"
proof -
  let ?f = "\<lambda>i. print_dir_entry (drop (32 * i) dir_after_free)"
  have s0: "?f 0 w = w" for w
    by (rule print_dir_entry_skip) (simp add: is_regular_def dir_after_free_def nth_append)
  have "take 32 (drop (32 * 1) dir_after_free) = hello_entry"
    by (simp add: dir_after_free_def length_hello_entry)
  then have s1: "?f 1 w = print_dir_entry hello_entry w" for w
    using print_dir_entry_take [of "drop (32 * 1) dir_after_free" w] by simp
  have rest: "?f i w = w" if "i \<in> set [2..<16]" for i w
  proof (rule print_dir_entry_skip)
    from that have i: "2 \<le> i" "i < 16" by (simp_all only: set_upt atLeastLessThan_iff)
    then have "drop (32 * i) dir_after_free = replicate (512 - 32 * i) 0"
      by (simp add: dir_after_free_def length_hello_entry)
    with i show "\<not> is_regular (drop (32 * i) dir_after_free)"
      by (simp add: is_regular_def)
  qed
  have "[0..<16] = [0, 1] @ [2..<16]"
    by code_simp
  then have "fold ?f [0..<16] w = fold ?f [2..<16] (?f 1 (?f 0 w))"
    by simp
  also have "\<dots> = ?f 1 (?f 0 w)"
    using rest by (rule fold_skip)
  also have "\<dots> = print_dir_entry hello_entry w"
    unfolding s0 s1 ..
  finally show ?thesis
    by (simp add: print_dir_entries_fold print_hello)
qed

lemma big_bytes:
  "big_entry = [66, 73, 71, 32, 32, 32, 32, 32, 66, 73, 78, 32,
     0, 0, 0, 0, 0, 0, 0, 0, 0, 0, 0, 0, 0, 0, 0, 0, 0x40, 0x9C, 0, 0]"
  by (simp add: big_entry_def lit_def numeral_eq_Suc)

lemma le32_big_entry: "le32 big_entry 28 = 40000"
  unfolding big_bytes by (simp add: le32_def)

lemma print_big:
  "print_dir_entry big_entry w
     = w\<lparr>uart := uart w @ lit ''Name: BIG.BIN | Attr: 20 | Size: -25536'' @ crlf\<rparr>"
  unfolding big_bytes
  by (simp add: print_dir_entry_def print_filename_def Let_def copy_name_eval usart0_puts_eq
      usart0_print_hex_def usart0_putc_def cstr_def lit_def crlf_def le32_def itoa_def
      dec_digits_eval)

lemma print_dir_entry_emits:
  "uart (print_dir_entry entry w) = uart w \<longleftrightarrow> \<not> is_regular entry"
proof (cases "is_regular entry")
  case True
  from print_dir_entry_regular [OF True, of w] True show ?thesis
    by (auto simp: lit_def)
next
  case False
  then show ?thesis
    by (simp add: print_dir_entry_skip)
qed

section \<open>Directory records\<close>

text \<open>
  Claim C1. \<open>main\<close> hands each of the 16 slots of the block to \<open>print_dir_entry\<close>, once
  and in order. For a slot whose first byte is \<open>0xE5\<close>, or whose attribute byte (offset
  11) has bit \<open>0x08\<close> set, \<open>print_dir_entry\<close> returns the state unchanged: nothing is
  sent to the USART. A slot produces output exactly when it is Regular: first byte
  neither \<open>0x00\<close> nor \<open>0xE5\<close> and attribute bit \<open>0x08\<close> clear.
\<close>

theorem only_regular_records_emitted:
  "print_dir_entries 0 sector w
     = fold (\<lambda>i. print_dir_entry (drop (32 * i) sector)) [0..<16] w
   \<and> (length sector = 512 \<and> i < 16
        \<and> (sector ! (32 * i) = 0xE5 \<or> sector ! (32 * i + 11) AND 0x08 \<noteq> 0)
        \<longrightarrow> print_dir_entry (drop (32 * i) sector) w = w)
   \<and> (length sector = 512 \<and> i < 16
        \<longrightarrow> (uart (print_dir_entry (drop (32 * i) sector) w) \<noteq> uart w
             \<longleftrightarrow> sector ! (32 * i) \<noteq> 0x00 \<and> sector ! (32 * i) \<noteq> 0xE5
                 \<and> sector ! (32 * i + 11) AND 0x08 = 0))"
proof (intro conjI impI)
  show "print_dir_entries 0 sector w
     = fold (\<lambda>i. print_dir_entry (drop (32 * i) sector)) [0..<16] w"
    by (rule print_dir_entries_fold)
next
  assume a: "length sector = 512 \<and> i < 16
        \<and> (sector ! (32 * i) = 0xE5 \<or> sector ! (32 * i + 11) AND 0x08 \<noteq> 0)"
  then have "drop (32 * i) sector ! 0 = sector ! (32 * i)"
    "drop (32 * i) sector ! 11 = sector ! (32 * i + 11)"
    using slot_nth [of sector i 0] slot_nth [of sector i 11] by simp_all
  with a show "print_dir_entry (drop (32 * i) sector) w = w"
    by (intro print_dir_entry_skip) (auto simp: is_regular_def)
next
  assume a: "length sector = 512 \<and> i < 16"
  let ?e = "drop (32 * i) sector"
  from a have nth: "?e ! 0 = sector ! (32 * i)" "?e ! 11 = sector ! (32 * i + 11)"
    using slot_nth [of sector i 0] slot_nth [of sector i 11] by simp_all
  have reg: "is_regular ?e \<longleftrightarrow> sector ! (32 * i) \<noteq> 0x00 \<and> sector ! (32 * i) \<noteq> 0xE5
                 \<and> sector ! (32 * i + 11) AND 0x08 = 0"
    by (simp add: is_regular_def nth)
  have "uart (print_dir_entry ?e w) \<noteq> uart w \<longleftrightarrow> is_regular ?e"
  proof (cases "is_regular ?e")
    case True
    from print_dir_entry_regular [OF True, of w] True show ?thesis
      by (auto simp: lit_def)
  next
    case False
    then show ?thesis
      by (simp add: print_dir_entry_skip)
  qed
  then show "uart (print_dir_entry ?e w) \<noteq> uart w
             \<longleftrightarrow> sector ! (32 * i) \<noteq> 0x00 \<and> sector ! (32 * i) \<noteq> 0xE5
                 \<and> sector ! (32 * i + 11) AND 0x08 = 0"
    unfolding reg .
qed

theorem only_regular_records_emitted_witness:
  "length dir_deleted = 512 \<and> (0::nat) < 16 \<and> dir_deleted ! (32 * 0) = 0xE5
   \<and> print_dir_entry (drop (32 * 0) dir_deleted) idle_card = idle_card
   \<and> length dir_after_free = 512 \<and> (1::nat) < 16
   \<and> uart (print_dir_entry (drop (32 * 1) dir_after_free) idle_card) \<noteq> uart idle_card
   \<and> dir_after_free ! (32 * 1) \<noteq> 0x00 \<and> dir_after_free ! (32 * 1) \<noteq> 0xE5
   \<and> dir_after_free ! (32 * 1 + 11) AND 0x08 = 0"
proof -
  have a: "length dir_deleted = 512 \<and> (0::nat) < 16 \<and> dir_deleted ! (32 * 0) = 0xE5"
    by (simp add: dir_deleted_def)
  have b: "length dir_after_free = 512 \<and> (1::nat) < 16"
    by (simp add: dir_after_free_def length_hello_entry)
  have c: "dir_after_free ! (32 * 1) \<noteq> 0x00 \<and> dir_after_free ! (32 * 1) \<noteq> 0xE5
   \<and> dir_after_free ! (32 * 1 + 11) AND 0x08 = 0"
    by (simp add: dir_after_free_def nth_append hello_bytes)
  from a b c only_regular_records_emitted [of dir_deleted idle_card 0]
    only_regular_records_emitted [of dir_after_free idle_card 1]
  show ?thesis
    by blast
qed

text \<open>
  Claim C9, as amended. A record whose first byte is \<open>0x00\<close> is never emitted. Every
  slot is classified from its own bytes only: the block is decoded by handing the 16
  slots to \<open>print_dir_entry\<close> one after the other, and what a slot emits is determined
  by its 32 bytes, whatever the other slots of the block contain. A slot is skipped
  (nothing is sent to the USART for it) exactly when its own first byte is \<open>0x00\<close> or
  \<open>0xE5\<close> or its own attribute bit \<open>0x08\<close> is set, and is emitted otherwise; in
  particular a slot that follows a slot starting with \<open>0x00\<close>, and is itself none of
  these, is emitted as a line \<open>Name: ... | Attr: .. | Size: ...\<close>.
\<close>

theorem free_slots_not_emitted:
  "print_dir_entries 0 sector w
     = fold (\<lambda>i. print_dir_entry (drop (32 * i) sector)) [0..<16] w
   \<and> (length sector = 512 \<and> i < 16 \<and> sector ! (32 * i) = 0x00
        \<longrightarrow> print_dir_entry (drop (32 * i) sector) w = w)
   \<and> (take 32 (drop (32 * i) sector) = take 32 (drop (32 * i) sector')
        \<longrightarrow> uart (print_dir_entry (drop (32 * i) sector') w)
            = uart (print_dir_entry (drop (32 * i) sector) w))
   \<and> (length sector = 512 \<and> i < 16
        \<longrightarrow> (uart (print_dir_entry (drop (32 * i) sector) w) = uart w
             \<longleftrightarrow> sector ! (32 * i) = 0x00 \<or> sector ! (32 * i) = 0xE5
                 \<or> sector ! (32 * i + 11) AND 0x08 \<noteq> 0))
   \<and> (length sector = 512 \<and> j < i \<and> i < 16 \<and> sector ! (32 * j) = 0x00
        \<and> sector ! (32 * i) \<noteq> 0x00 \<and> sector ! (32 * i) \<noteq> 0xE5
        \<and> sector ! (32 * i + 11) AND 0x08 = 0
        \<longrightarrow> (\<exists>name a b. uart (print_dir_entry (drop (32 * i) sector) w)
              = uart w @ lit ''Name: '' @ name @ lit '' | Attr: '' @ [a, b]
                  @ lit '' | Size: ''
                  @ butlast (itoa (ucast (le32 (drop (32 * i) sector) 28))) @ crlf))"
proof (intro conjI impI)
  show "print_dir_entries 0 sector w
     = fold (\<lambda>i. print_dir_entry (drop (32 * i) sector)) [0..<16] w"
    by (rule print_dir_entries_fold)
next
  assume "length sector = 512 \<and> i < 16 \<and> sector ! (32 * i) = 0x00"
  then have "drop (32 * i) sector ! 0 = 0"
    using slot_nth [of sector i 0] by simp
  then show "print_dir_entry (drop (32 * i) sector) w = w"
    by (intro print_dir_entry_skip) (simp add: is_regular_def)
next
  assume "take 32 (drop (32 * i) sector) = take 32 (drop (32 * i) sector')"
  then show "uart (print_dir_entry (drop (32 * i) sector') w)
            = uart (print_dir_entry (drop (32 * i) sector) w)"
    using print_dir_entry_take [of "drop (32 * i) sector" w]
      print_dir_entry_take [of "drop (32 * i) sector'" w] by simp
next
  assume a: "length sector = 512 \<and> i < 16"
  let ?e = "drop (32 * i) sector"
  from a have nth: "?e ! 0 = sector ! (32 * i)" "?e ! 11 = sector ! (32 * i + 11)"
    using slot_nth [of sector i 0] slot_nth [of sector i 11] by simp_all
  show "uart (print_dir_entry ?e w) = uart w
             \<longleftrightarrow> sector ! (32 * i) = 0x00 \<or> sector ! (32 * i) = 0xE5
                 \<or> sector ! (32 * i + 11) AND 0x08 \<noteq> 0"
    unfolding print_dir_entry_emits by (auto simp: is_regular_def nth)
next
  assume a: "length sector = 512 \<and> j < i \<and> i < 16 \<and> sector ! (32 * j) = 0x00
        \<and> sector ! (32 * i) \<noteq> 0x00 \<and> sector ! (32 * i) \<noteq> 0xE5
        \<and> sector ! (32 * i + 11) AND 0x08 = 0"
  let ?e = "drop (32 * i) sector"
  from a have nth: "?e ! 0 = sector ! (32 * i)" "?e ! 11 = sector ! (32 * i + 11)"
    using slot_nth [of sector i 0] slot_nth [of sector i 11] by simp_all
  from a have reg: "is_regular ?e"
    by (simp add: is_regular_def nth)
  from print_dir_entry_regular [OF reg, of w]
  obtain name a b where "print_dir_entry ?e w
    = w\<lparr>uart := uart w @ lit ''Name: '' @ name @ lit '' | Attr: '' @ [a, b]
          @ lit '' | Size: '' @ butlast (itoa (ucast (le32 ?e 28))) @ crlf\<rparr>"
    by blast
  then have "uart (print_dir_entry ?e w)
       = uart w @ lit ''Name: '' @ name @ lit '' | Attr: '' @ [a, b]
           @ lit '' | Size: '' @ butlast (itoa (ucast (le32 ?e 28))) @ crlf"
    by simp
  then show "\<exists>name a b. uart (print_dir_entry ?e w)
              = uart w @ lit ''Name: '' @ name @ lit '' | Attr: '' @ [a, b]
                  @ lit '' | Size: '' @ butlast (itoa (ucast (le32 ?e 28))) @ crlf"
    by blast
qed

theorem free_slots_not_emitted_witness:
  "length dir_after_free = 512 \<and> (0::nat) < 16 \<and> dir_after_free ! (32 * 0) = 0x00
   \<and> print_dir_entry (drop (32 * 0) dir_after_free) idle_card = idle_card
   \<and> take 32 (drop (32 * 1) dir_after_free)
       = take 32 (drop (32 * 1) (replicate 32 0xE5 @ hello_entry @ replicate 448 0xFF))
   \<and> uart (print_dir_entry (drop (32 * 1) (replicate 32 0xE5 @ hello_entry @ replicate 448 0xFF))
         idle_card)
       = uart (print_dir_entry (drop (32 * 1) dir_after_free) idle_card)
   \<and> (0::nat) < 1 \<and> (1::nat) < 16
   \<and> dir_after_free ! (32 * 1) \<noteq> 0x00 \<and> dir_after_free ! (32 * 1) \<noteq> 0xE5
   \<and> dir_after_free ! (32 * 1 + 11) AND 0x08 = 0
   \<and> uart (print_dir_entry (drop (32 * 1) dir_after_free) idle_card) \<noteq> uart idle_card
   \<and> (\<exists>name a b. uart (print_dir_entry (drop (32 * 1) dir_after_free) idle_card)
              = uart idle_card @ lit ''Name: '' @ name @ lit '' | Attr: '' @ [a, b]
                  @ lit '' | Size: ''
                  @ butlast (itoa (ucast (le32 (drop (32 * 1) dir_after_free) 28))) @ crlf)
   \<and> dir_after_free ! (32 * 2) = 0x00
   \<and> uart (print_dir_entry (drop (32 * 2) dir_after_free) idle_card) = uart idle_card"
proof -
  have a: "length dir_after_free = 512 \<and> (0::nat) < 16 \<and> dir_after_free ! (32 * 0) = 0x00"
    by (simp add: dir_after_free_def length_hello_entry nth_append)
  have b: "take 32 (drop (32 * 1) dir_after_free)
       = take 32 (drop (32 * 1) (replicate 32 0xE5 @ hello_entry @ replicate 448 0xFF))"
    by (simp add: dir_after_free_def length_hello_entry)
  have c: "(0::nat) < 1 \<and> (1::nat) < 16
   \<and> dir_after_free ! (32 * 1) \<noteq> 0x00 \<and> dir_after_free ! (32 * 1) \<noteq> 0xE5
   \<and> dir_after_free ! (32 * 1 + 11) AND 0x08 = 0"
    by (simp add: dir_after_free_def nth_append hello_bytes)
  have d: "(2::nat) < 16 \<and> dir_after_free ! (32 * 2) = 0x00"
    by (simp add: dir_after_free_def nth_append length_hello_entry)
  note s0 = free_slots_not_emitted [of dir_after_free idle_card 0]
  note s1 = free_slots_not_emitted [of dir_after_free idle_card 1
      "replicate 32 0xE5 @ hello_entry @ replicate 448 0xFF" 0]
  note s2 = free_slots_not_emitted [of dir_after_free idle_card 2]
  have 1: "print_dir_entry (drop (32 * 0) dir_after_free) idle_card = idle_card"
    using s0 a by blast
  have 2: "uart (print_dir_entry (drop (32 * 1) (replicate 32 0xE5 @ hello_entry @ replicate 448 0xFF))
         idle_card)
       = uart (print_dir_entry (drop (32 * 1) dir_after_free) idle_card)"
    using s1 b by blast
  have 3: "uart (print_dir_entry (drop (32 * 1) dir_after_free) idle_card) \<noteq> uart idle_card"
    using s1 [THEN conjunct2, THEN conjunct2, THEN conjunct2, THEN conjunct1] a c by blast
  have 4: "\<exists>name a b. uart (print_dir_entry (drop (32 * 1) dir_after_free) idle_card)
              = uart idle_card @ lit ''Name: '' @ name @ lit '' | Attr: '' @ [a, b]
                  @ lit '' | Size: ''
                  @ butlast (itoa (ucast (le32 (drop (32 * 1) dir_after_free) 28))) @ crlf"
    using s1 [THEN conjunct2, THEN conjunct2, THEN conjunct2, THEN conjunct2] a c by blast
  have 5: "uart (print_dir_entry (drop (32 * 2) dir_after_free) idle_card) = uart idle_card"
    using s2 [THEN conjunct2, THEN conjunct2, THEN conjunct2, THEN conjunct1] a d by blast
  from a b c d 1 2 3 4 5 show ?thesis
    by blast
qed

text \<open>
  Claim C9 as stated has every slot after a slot starting with \<open>0x00\<close> classified Free
  whatever it contains. In \<open>dir_after_free\<close> slot 0 starts with \<open>0x00\<close> and slot 1 holds a
  Regular record, which is emitted.
\<close>

theorem slots_after_free_counterexample:
  "length dir_after_free = 512 \<and> dir_after_free ! 0 = 0x00
   \<and> uart (print_dir_entries 0 dir_after_free idle_card)
       = lit ''Name: HELLO.TXT | Attr: 20 | Size: 10'' @ crlf"
  by (simp add: print_dir_after_free)
     (simp add: dir_after_free_def length_hello_entry idle_card_def nth_append)

section \<open>Properties of the main routine\<close>

lemma main_stages:
  "main sector w =
    (if fst (main_init w) = 0
     then usart0_puts (lit ''SD Card init failed!'' @ crlf @ [0]) (snd (main_init w))
     else if fst (main_mbr sector w) = 0
     then usart0_puts (lit ''MBR read error'' @ crlf @ [0]) (snd (snd (main_mbr sector w)))
     else if fst (main_vbr sector w) = 0
     then usart0_puts (lit ''VBR read error'' @ crlf @ [0]) (snd (snd (main_vbr sector w)))
     else if fst (main_root sector w) = 0
     then usart0_puts (lit ''Root dir read error'' @ crlf @ [0]) (snd (snd (main_root sector w)))
     else print_dir_entries 0 (fst (snd (main_root sector w)))
            (usart0_puts (lit ''Root Directory:'' @ crlf @ [0]) (snd (snd (main_root sector w)))))"
  by (simp add: main_def main_init_def main_mbr_def main_vbr_def main_root_def Let_def
      split: prod.splits)

lemma puts_literals:
  "takeWhile (\<lambda>c. c \<noteq> 0) (crlf @ lit ''Initializing SD Card...'' @ crlf @ [0])
     = crlf @ lit ''Initializing SD Card...'' @ crlf"
  "takeWhile (\<lambda>c. c \<noteq> 0) (lit ''SD Card init failed!'' @ crlf @ [0])
     = lit ''SD Card init failed!'' @ crlf"
  "takeWhile (\<lambda>c. c \<noteq> 0) (lit ''SD Card OK.'' @ crlf @ [0]) = lit ''SD Card OK.'' @ crlf"
  "takeWhile (\<lambda>c. c \<noteq> 0) (lit ''MBR read error'' @ crlf @ [0]) = lit ''MBR read error'' @ crlf"
  "takeWhile (\<lambda>c. c \<noteq> 0) (lit ''VBR read error'' @ crlf @ [0]) = lit ''VBR read error'' @ crlf"
  "takeWhile (\<lambda>c. c \<noteq> 0) (lit ''Root dir read error'' @ crlf @ [0])
     = lit ''Root dir read error'' @ crlf"
  "takeWhile (\<lambda>c. c \<noteq> 0) (lit ''Root Directory:'' @ crlf @ [0]) = lit ''Root Directory:'' @ crlf"
  "takeWhile (\<lambda>c. c \<noteq> 0) (cstr ''FAT32 detected. Root Cluster: '')
     = lit ''FAT32 detected. Root Cluster: ''"
  by (simp_all add: cstr_def lit_def crlf_def)

lemma sd_init_frame:
  "\<exists>es. snd (sd_init w) = advance es w"
  using sd_init_trace [of w] by blast

lemma sd_read_sector_frame:
  "\<exists>es. snd (snd (sd_read_sector sector buffer w)) = advance es w"
  using sd_read_sector_trace [of sector buffer w] by blast

lemma main_init_world:
  "\<exists>es. snd (main_init w)
      = advance (CS_High # replicate 10 (Xfer 0xFF) @ es
          @ (if fst (main_init w) = 0 then [] else [CS_High, Xfer 0xFF]))
          (w\<lparr>uart := uart w @ crlf @ lit ''Initializing SD Card...'' @ crlf\<rparr>)
    \<and> Xfer 0x51 \<notin> set es \<and> CS_High \<notin> set es"
  using sd_init_trace [of "usart0_puts (crlf @ lit ''Initializing SD Card...'' @ crlf @ [0]) w"]
  unfolding main_init_def usart0_puts_eq puts_literals by blast

lemma main_mbr_world:
  "\<exists>k m. 1 \<le> k \<and> k \<le> 8 \<and> snd (snd (main_mbr sector w))
      = advance (CS_Low # cmd_events 17 0 0xFF k @ replicate m (Xfer 0xFF) @ [CS_High, Xfer 0xFF])
          ((snd (main_init w))\<lparr>uart := uart (snd (main_init w)) @ lit ''SD Card OK.'' @ crlf\<rparr>)"
  using sd_read_sector_trace [of 0 sector
      "usart0_puts (lit ''SD Card OK.'' @ crlf @ [0]) (snd (main_init w))"]
  unfolding main_mbr_def usart0_puts_eq puts_literals by blast

lemma main_vbr_world:
  "\<exists>k m. 1 \<le> k \<and> k \<le> 8 \<and> snd (snd (main_vbr sector w))
      = advance (CS_Low # cmd_events 17 (le32 (fst (snd (main_mbr sector w))) 454) 0xFF k
           @ replicate m (Xfer 0xFF) @ [CS_High, Xfer 0xFF])
          (snd (snd (main_mbr sector w)))"
  using sd_read_sector_trace [of "le32 (fst (snd (main_mbr sector w))) 454"
      "fst (snd (main_mbr sector w))" "snd (snd (main_mbr sector w))"]
  unfolding main_vbr_def by (simp add: split_beta) blast

lemma main_root_world:
  "\<exists>k m. 1 \<le> k \<and> k \<le> 8 \<and> snd (snd (main_root sector w))
      = advance (CS_Low # cmd_events 17
             (first_root_sector (snd (parse_fat32_info (fst (snd (main_vbr sector w)))))) 0xFF k
           @ replicate m (Xfer 0xFF) @ [CS_High, Xfer 0xFF])
          ((snd (snd (main_vbr sector w)))\<lparr>uart := uart (snd (snd (main_vbr sector w)))
             @ lit ''FAT32 detected. Root Cluster: ''
             @ butlast (itoa (ucast (root_cluster
                 (snd (parse_fat32_info (fst (snd (main_vbr sector w))))))))
             @ crlf\<rparr>)"
proof -
  let ?vbr = "fst (snd (main_vbr sector w))"
  let ?v = "snd (snd (main_vbr sector w))"
  let ?fat32 = "snd (parse_fat32_info ?vbr)"
  let ?v' = "usart0_puts (crlf @ [0]) (usart0_puts (itoa (ucast (root_cluster ?fat32)))
              (usart0_puts (cstr ''FAT32 detected. Root Cluster: '') ?v))"
  have v': "?v' = ?v\<lparr>uart := uart ?v @ lit ''FAT32 detected. Root Cluster: ''
             @ butlast (itoa (ucast (root_cluster ?fat32))) @ crlf\<rparr>"
    by (simp add: usart0_puts_eq puts_literals itoa_no_nul lit_no_nul_examples)
  have "main_root sector w = sd_read_sector (first_root_sector ?fat32) ?vbr ?v'"
    by (simp add: main_root_def split_beta Let_def)
  then show ?thesis
    using sd_read_sector_trace [of "first_root_sector ?fat32" ?vbr ?v']
    unfolding v' by simp blast
qed

lemma usart0_puts_fields [simp]:
  "bus (usart0_puts str w) = bus w" "clock (usart0_puts str w) = clock w"
  "miso (usart0_puts str w) = miso w"
  "uart (usart0_puts str w) = uart w @ takeWhile (\<lambda>c. c \<noteq> 0) str"
  by (simp_all add: usart0_puts_eq)

lemma main_init_fast:
  assumes "clock w = 0" "miso w 16 = 1" "miso w 23 = 1" "miso w 34 = 0" "miso w 41 = 0"
    "miso w 48 = 0"
  shows "fst (main_init w) = 1" "clock (snd (main_init w)) = 54"
    "miso (snd (main_init w)) = miso w"
proof -
  let ?w = "usart0_puts (crlf @ lit ''Initializing SD Card...'' @ crlf @ [0]) w"
  have "sd_init ?w
    = (1, advance (CS_High # replicate 10 (Xfer 0xFF) @ cmd_events 0 0 0x95 1
            @ cmd_events 8 0x1AA 0x87 1 @ replicate 4 (Xfer 0xFF)
            @ cmd_events 55 0 0x65 1 @ cmd_events 41 0x40000000 0x77 1
            @ cmd_events 58 0 0xFD 1 @ replicate 4 (Xfer 0xFF) @ [CS_High, Xfer 0xFF]) ?w)"
    by (rule sd_init_fast) (simp_all add: assms)
  then show "fst (main_init w) = 1" "clock (snd (main_init w)) = 54"
    "miso (snd (main_init w)) = miso w"
    by (simp_all add: main_init_def assms)
qed

lemma main_mbr_fast:
  assumes "length sector = 512" "clock (snd (main_init w)) = 54"
    "miso (snd (main_init w)) = m" "m 60 = 0" "m 61 = 0xFE"
  shows "fst (main_mbr sector w) = 1" "clock (snd (snd (main_mbr sector w))) = 577"
    "miso (snd (snd (main_mbr sector w))) = m" "length (fst (snd (main_mbr sector w))) = 512"
proof -
  let ?w = "usart0_puts (lit ''SD Card OK.'' @ crlf @ [0]) (snd (main_init w))"
  have "sd_read_sector 0 sector ?w
    = (1, map (\<lambda>j. miso ?w (clock ?w + 8 + j)) [0..<SECTOR_SIZE],
       advance (CS_Low # cmd_events 17 0 0xFF 1 @ replicate 515 (Xfer 0xFF)
         @ [CS_High, Xfer 0xFF]) ?w)"
    by (rule sd_read_sector_fast) (simp_all add: assms SECTOR_SIZE_def)
  then show "fst (main_mbr sector w) = 1" "clock (snd (snd (main_mbr sector w))) = 577"
    "miso (snd (snd (main_mbr sector w))) = m" "length (fst (snd (main_mbr sector w))) = 512"
    by (simp_all add: main_mbr_def assms SECTOR_SIZE_def)
qed

lemma main_vbr_fast:
  assumes "length (fst (snd (main_mbr sector w))) = 512"
    "clock (snd (snd (main_mbr sector w))) = 577"
    "miso (snd (snd (main_mbr sector w))) = m" "m 583 = 0" "m 584 = 0xFE"
  shows "fst (main_vbr sector w) = 1" "clock (snd (snd (main_vbr sector w))) = 1100"
    "miso (snd (snd (main_vbr sector w))) = m"
proof -
  let ?mbr = "fst (snd (main_mbr sector w))"
  let ?w = "snd (snd (main_mbr sector w))"
  have "sd_read_sector (le32 ?mbr 454) ?mbr ?w
    = (1, map (\<lambda>j. miso ?w (clock ?w + 8 + j)) [0..<SECTOR_SIZE],
       advance (CS_Low # cmd_events 17 (le32 ?mbr 454) 0xFF 1 @ replicate 515 (Xfer 0xFF)
         @ [CS_High, Xfer 0xFF]) ?w)"
    by (rule sd_read_sector_fast) (simp_all add: assms SECTOR_SIZE_def)
  then show "fst (main_vbr sector w) = 1" "clock (snd (snd (main_vbr sector w))) = 1100"
    "miso (snd (snd (main_vbr sector w))) = m"
    by (simp_all add: main_vbr_def split_beta assms)
qed

lemma main_vbr_rejected:
  assumes "clock (snd (snd (main_mbr sector w))) = 577"
    "miso (snd (snd (main_mbr sector w))) = m" "m 583 = 1"
  shows "fst (main_vbr sector w) = 0"
proof -
  let ?mbr = "fst (snd (main_mbr sector w))"
  let ?w = "snd (snd (main_mbr sector w))"
  have "sd_read_sector (le32 ?mbr 454) ?mbr ?w
    = (0, ?mbr, advance (CS_Low # cmd_events 17 (le32 ?mbr 454) 0xFF 1 @ [CS_High, Xfer 0xFF]) ?w)"
    by (rule sd_read_sector_rejected) (simp_all add: assms)
  then show ?thesis
    by (simp add: main_vbr_def split_beta)
qed

lemma main_root_rejected:
  assumes "clock (snd (snd (main_vbr sector w))) = 1100"
    "miso (snd (snd (main_vbr sector w))) = m" "m 1106 = 1"
  shows "fst (main_root sector w) = 0"
proof -
  let ?vbr = "fst (snd (main_vbr sector w))"
  let ?fat32 = "snd (parse_fat32_info ?vbr)"
  let ?w = "usart0_puts (crlf @ [0]) (usart0_puts (itoa (ucast (root_cluster ?fat32)))
              (usart0_puts (cstr ''FAT32 detected. Root Cluster: '') (snd (snd (main_vbr sector w)))))"
  have "sd_read_sector (first_root_sector ?fat32) ?vbr ?w
    = (0, ?vbr, advance (CS_Low # cmd_events 17 (first_root_sector ?fat32) 0xFF 1
         @ [CS_High, Xfer 0xFF]) ?w)"
    by (rule sd_read_sector_rejected) (simp_all add: assms)
  then show ?thesis
    by (simp add: main_root_def split_beta Let_def)
qed

lemma print_dir_entry_uart: "\<exists>t. uart (print_dir_entry entry w) = uart w @ t"
proof (cases "is_regular entry")
  case True
  from print_dir_entry_regular [OF True, of w]
  obtain name a b where eq: "print_dir_entry entry w
    = w\<lparr>uart := uart w @ lit ''Name: '' @ name @ lit '' | Attr: '' @ [a, b]
          @ lit '' | Size: '' @ butlast (itoa (ucast (le32 entry 28))) @ crlf\<rparr>"
    by blast
  show ?thesis
    unfolding eq by simp
next
  case False
  then show ?thesis
    by (simp add: print_dir_entry_skip)
qed

lemma fold_uart:
  assumes "\<And>i w. \<exists>t. uart (f i w) = uart w @ t"
  shows "\<exists>t. uart (fold f xs w) = uart w @ t"
proof (induction xs arbitrary: w)
  case Nil
  show ?case by simp
next
  case (Cons x xs)
  from assms [of x w] obtain t1 where t1: "uart (f x w) = uart w @ t1" by blast
  from Cons.IH [of "f x w"] obtain t2 where "uart (fold f xs (f x w)) = uart (f x w) @ t2"
    by blast
  with t1 show ?case by simp
qed

lemma print_dir_entries_uart: "\<exists>t. uart (print_dir_entries 0 sector w) = uart w @ t"
  unfolding print_dir_entries_fold by (rule fold_uart) (rule print_dir_entry_uart)

lemma main_root_cluster_printed:
  assumes "fst (main_init w) \<noteq> 0" "fst (main_mbr sector w) \<noteq> 0" "fst (main_vbr sector w) \<noteq> 0"
  shows "\<exists>rest. uart (main sector w)
     = uart w @ crlf @ lit ''Initializing SD Card...'' @ crlf @ lit ''SD Card OK.'' @ crlf
         @ lit ''FAT32 detected. Root Cluster: ''
         @ butlast (itoa (ucast (root_cluster
             (snd (parse_fat32_info (fst (snd (main_vbr sector w))))))))
         @ crlf @ rest"
proof -
  let ?banner = "crlf @ lit ''Initializing SD Card...'' @ crlf"
  let ?rc = "butlast (itoa (ucast (root_cluster
             (snd (parse_fat32_info (fst (snd (main_vbr sector w))))))))"
  from main_init_world [of w]
  obtain es0 where init: "snd (main_init w)
      = advance (CS_High # replicate 10 (Xfer 0xFF) @ es0
          @ (if fst (main_init w) = 0 then [] else [CS_High, Xfer 0xFF]))
          (w\<lparr>uart := uart w @ ?banner\<rparr>)"
    by blast
  from main_mbr_world [of sector w]
  obtain k1 m1 where mbr: "snd (snd (main_mbr sector w))
      = advance (CS_Low # cmd_events 17 0 0xFF k1 @ replicate m1 (Xfer 0xFF) @ [CS_High, Xfer 0xFF])
          ((snd (main_init w))\<lparr>uart := uart (snd (main_init w)) @ lit ''SD Card OK.'' @ crlf\<rparr>)"
    by blast
  from main_vbr_world [of sector w]
  obtain k2 m2 where vbr: "snd (snd (main_vbr sector w))
      = advance (CS_Low # cmd_events 17 (le32 (fst (snd (main_mbr sector w))) 454) 0xFF k2
           @ replicate m2 (Xfer 0xFF) @ [CS_High, Xfer 0xFF])
          (snd (snd (main_mbr sector w)))"
    by blast
  from main_root_world [of sector w]
  obtain k3 m3 where root: "snd (snd (main_root sector w))
      = advance (CS_Low # cmd_events 17
             (first_root_sector (snd (parse_fat32_info (fst (snd (main_vbr sector w)))))) 0xFF k3
           @ replicate m3 (Xfer 0xFF) @ [CS_High, Xfer 0xFF])
          ((snd (snd (main_vbr sector w)))\<lparr>uart := uart (snd (snd (main_vbr sector w)))
             @ lit ''FAT32 detected. Root Cluster: '' @ ?rc @ crlf\<rparr>)"
    by blast
  have u0: "uart (snd (main_init w)) = uart w @ ?banner"
    by (subst init) simp
  have u1: "uart (snd (snd (main_mbr sector w))) = uart w @ ?banner @ lit ''SD Card OK.'' @ crlf"
    by (subst mbr) (simp add: u0)
  have u2: "uart (snd (snd (main_vbr sector w))) = uart w @ ?banner @ lit ''SD Card OK.'' @ crlf"
    by (subst vbr) (simp add: u1)
  have u3: "uart (snd (snd (main_root sector w)))
      = uart w @ ?banner @ lit ''SD Card OK.'' @ crlf @ lit ''FAT32 detected. Root Cluster: ''
          @ ?rc @ crlf"
    by (subst root) (simp add: u2)
  show ?thesis
  proof (cases "fst (main_root sector w) = 0")
    case True
    with assms show ?thesis
      by (intro exI [of _ "lit ''Root dir read error'' @ crlf"])
         (simp add: main_stages u3 puts_literals)
  next
    case False
    let ?v = "usart0_puts (lit ''Root Directory:'' @ crlf @ [0]) (snd (snd (main_root sector w)))"
    from print_dir_entries_uart [of "fst (snd (main_root sector w))" ?v]
    obtain t where "uart (print_dir_entries 0 (fst (snd (main_root sector w))) ?v) = uart ?v @ t"
      by blast
    with False assms show ?thesis
      by (intro exI [of _ "lit ''Root Directory:'' @ crlf @ t"])
         (simp add: main_stages u3 puts_literals)
  qed
qed

section \<open>Failure propagation\<close>

text \<open>
  Claim C4. If \<open>sd_init\<close> fails, \<open>main\<close> prints \<open>SD Card init failed!\<close> and stops: its
  final bus log and exchange count are those \<open>sd_init\<close> left, so nothing is exchanged
  with the card afterwards, and no byte of a read command (\<open>0x51\<close>) was ever sent. In
  the same way the read of sector 0, of the boot sector and of the root directory each
  happen only after all earlier steps succeeded, each adds the events of exactly one
  \<open>sd_read_sector\<close> call to the bus log, and when one of them fails \<open>main\<close> prints the
  message of that step and stops with the bus log that step left. In each of these
  cases the whole output is the progress messages and the failure message: no directory
  record is printed.
\<close>

theorem failure_propagation:
  "(fst (main_init w) = 0 \<longrightarrow>
      bus (main sector w) = bus (snd (main_init w))
      \<and> clock (main sector w) = clock (snd (main_init w))
      \<and> uart (main sector w)
          = uart w @ crlf @ lit ''Initializing SD Card...'' @ crlf
              @ lit ''SD Card init failed!'' @ crlf)
   \<and> (fst (main_init w) \<noteq> 0 \<and> fst (main_mbr sector w) = 0 \<longrightarrow>
      bus (main sector w) = bus (snd (snd (main_mbr sector w)))
      \<and> clock (main sector w) = clock (snd (snd (main_mbr sector w)))
      \<and> uart (main sector w)
          = uart w @ crlf @ lit ''Initializing SD Card...'' @ crlf @ lit ''SD Card OK.'' @ crlf
              @ lit ''MBR read error'' @ crlf)
   \<and> (fst (main_init w) \<noteq> 0 \<and> fst (main_mbr sector w) \<noteq> 0 \<and> fst (main_vbr sector w) = 0 \<longrightarrow>
      bus (main sector w) = bus (snd (snd (main_vbr sector w)))
      \<and> clock (main sector w) = clock (snd (snd (main_vbr sector w)))
      \<and> uart (main sector w)
          = uart w @ crlf @ lit ''Initializing SD Card...'' @ crlf @ lit ''SD Card OK.'' @ crlf
              @ lit ''VBR read error'' @ crlf)
   \<and> (fst (main_init w) \<noteq> 0 \<and> fst (main_mbr sector w) \<noteq> 0 \<and> fst (main_vbr sector w) \<noteq> 0
        \<and> fst (main_root sector w) = 0 \<longrightarrow>
      bus (main sector w) = bus (snd (snd (main_root sector w)))
      \<and> clock (main sector w) = clock (snd (snd (main_root sector w)))
      \<and> uart (main sector w)
          = uart w @ crlf @ lit ''Initializing SD Card...'' @ crlf @ lit ''SD Card OK.'' @ crlf
              @ lit ''FAT32 detected. Root Cluster: ''
              @ butlast (itoa (ucast (root_cluster
                  (snd (parse_fat32_info (fst (snd (main_vbr sector w))))))))
              @ crlf @ lit ''Root dir read error'' @ crlf)
   \<and> (\<exists>es. bus (snd (main_init w)) = bus w @ es \<and> Xfer 0x51 \<notin> set es)
   \<and> (\<exists>k m. bus (snd (snd (main_mbr sector w)))
         = bus (snd (main_init w)) @ CS_Low # cmd_events 17 0 0xFF k
             @ replicate m (Xfer 0xFF) @ [CS_High, Xfer 0xFF])
   \<and> (\<exists>k m. bus (snd (snd (main_vbr sector w)))
         = bus (snd (snd (main_mbr sector w)))
             @ CS_Low # cmd_events 17 (le32 (fst (snd (main_mbr sector w))) 454) 0xFF k
             @ replicate m (Xfer 0xFF) @ [CS_High, Xfer 0xFF])
   \<and> (\<exists>k m. bus (snd (snd (main_root sector w)))
         = bus (snd (snd (main_vbr sector w)))
             @ CS_Low # cmd_events 17
                 (first_root_sector (snd (parse_fat32_info (fst (snd (main_vbr sector w)))))) 0xFF k
             @ replicate m (Xfer 0xFF) @ [CS_High, Xfer 0xFF])"
proof -
  let ?banner = "crlf @ lit ''Initializing SD Card...'' @ crlf"
  from main_init_world [of w]
  obtain es0 where init: "snd (main_init w)
      = advance (CS_High # replicate 10 (Xfer 0xFF) @ es0
          @ (if fst (main_init w) = 0 then [] else [CS_High, Xfer 0xFF]))
          (w\<lparr>uart := uart w @ ?banner\<rparr>)"
    and no17: "Xfer 0x51 \<notin> set es0"
    by blast
  from main_mbr_world [of sector w]
  obtain k1 m1 where mbr: "snd (snd (main_mbr sector w))
      = advance (CS_Low # cmd_events 17 0 0xFF k1 @ replicate m1 (Xfer 0xFF) @ [CS_High, Xfer 0xFF])
          ((snd (main_init w))\<lparr>uart := uart (snd (main_init w)) @ lit ''SD Card OK.'' @ crlf\<rparr>)"
    by blast
  from main_vbr_world [of sector w]
  obtain k2 m2 where vbr: "snd (snd (main_vbr sector w))
      = advance (CS_Low # cmd_events 17 (le32 (fst (snd (main_mbr sector w))) 454) 0xFF k2
           @ replicate m2 (Xfer 0xFF) @ [CS_High, Xfer 0xFF])
          (snd (snd (main_mbr sector w)))"
    by blast
  from main_root_world [of sector w]
  obtain k3 m3 where root: "snd (snd (main_root sector w))
      = advance (CS_Low # cmd_events 17
             (first_root_sector (snd (parse_fat32_info (fst (snd (main_vbr sector w)))))) 0xFF k3
           @ replicate m3 (Xfer 0xFF) @ [CS_High, Xfer 0xFF])
          ((snd (snd (main_vbr sector w)))\<lparr>uart := uart (snd (snd (main_vbr sector w)))
             @ lit ''FAT32 detected. Root Cluster: ''
             @ butlast (itoa (ucast (root_cluster
                 (snd (parse_fat32_info (fst (snd (main_vbr sector w))))))))
             @ crlf\<rparr>)"
    by blast
  have u0: "uart (snd (main_init w)) = uart w @ ?banner"
    by (subst init) simp
  have u1: "uart (snd (snd (main_mbr sector w))) = uart w @ ?banner @ lit ''SD Card OK.'' @ crlf"
    by (subst mbr) (simp add: u0)
  have u2: "uart (snd (snd (main_vbr sector w))) = uart w @ ?banner @ lit ''SD Card OK.'' @ crlf"
    by (subst vbr) (simp add: u1)
  have u3: "uart (snd (snd (main_root sector w)))
      = uart w @ ?banner @ lit ''SD Card OK.'' @ crlf @ lit ''FAT32 detected. Root Cluster: ''
          @ butlast (itoa (ucast (root_cluster
              (snd (parse_fat32_info (fst (snd (main_vbr sector w))))))))
          @ crlf"
    by (subst root) (simp add: u2)
  have b0: "\<exists>es. bus (snd (main_init w)) = bus w @ es \<and> Xfer 0x51 \<notin> set es"
    by (subst init, rule exI [of _ "CS_High # replicate 10 (Xfer 0xFF) @ es0
          @ (if fst (main_init w) = 0 then [] else [CS_High, Xfer 0xFF])"])
       (simp add: no17)
  have b1: "\<exists>k m. bus (snd (snd (main_mbr sector w)))
         = bus (snd (main_init w)) @ CS_Low # cmd_events 17 0 0xFF k
             @ replicate m (Xfer 0xFF) @ [CS_High, Xfer 0xFF]"
    by (subst mbr, rule exI [of _ k1], rule exI [of _ m1]) simp
  have b2: "\<exists>k m. bus (snd (snd (main_vbr sector w)))
         = bus (snd (snd (main_mbr sector w)))
             @ CS_Low # cmd_events 17 (le32 (fst (snd (main_mbr sector w))) 454) 0xFF k
             @ replicate m (Xfer 0xFF) @ [CS_High, Xfer 0xFF]"
    by (subst vbr, rule exI [of _ k2], rule exI [of _ m2]) simp
  have b3: "\<exists>k m. bus (snd (snd (main_root sector w)))
         = bus (snd (snd (main_vbr sector w)))
             @ CS_Low # cmd_events 17
                 (first_root_sector (snd (parse_fat32_info (fst (snd (main_vbr sector w)))))) 0xFF k
             @ replicate m (Xfer 0xFF) @ [CS_High, Xfer 0xFF]"
    by (subst root, rule exI [of _ k3], rule exI [of _ m3]) simp
  show ?thesis
    apply (intro conjI impI)
                   apply (simp_all only: b0 b1 b2 b3)
               apply (simp_all add: main_stages u0 u1 u2 u3 puts_literals)
    done
qed

theorem failure_propagation_witness:
  "fst (main_init silent_card) = 0
   \<and> uart (main (replicate 512 0) silent_card)
       = crlf @ lit ''Initializing SD Card...'' @ crlf @ lit ''SD Card init failed!'' @ crlf
   \<and> fst (main_init ready_card) \<noteq> 0 \<and> fst (main_mbr (replicate 512 0) ready_card) = 0
   \<and> uart (main (replicate 512 0) ready_card)
       = crlf @ lit ''Initializing SD Card...'' @ crlf @ lit ''SD Card OK.'' @ crlf
           @ lit ''MBR read error'' @ crlf
   \<and> fst (main_init mbr_card) \<noteq> 0 \<and> fst (main_mbr (replicate 512 0) mbr_card) \<noteq> 0
   \<and> fst (main_vbr (replicate 512 0) mbr_card) = 0
   \<and> uart (main (replicate 512 0) mbr_card)
       = crlf @ lit ''Initializing SD Card...'' @ crlf @ lit ''SD Card OK.'' @ crlf
           @ lit ''VBR read error'' @ crlf
   \<and> fst (main_init vbr_card) \<noteq> 0 \<and> fst (main_mbr (replicate 512 0) vbr_card) \<noteq> 0
   \<and> fst (main_vbr (replicate 512 0) vbr_card) \<noteq> 0
   \<and> fst (main_root (replicate 512 0) vbr_card) = 0
   \<and> bus (main (replicate 512 0) vbr_card) = bus (snd (snd (main_root (replicate 512 0) vbr_card)))"
proof -
  let ?s = "replicate 512 (0 :: u8)"
  have s0: "fst (main_init silent_card) = 0"
    unfolding main_init_def
    by (subst sd_init_no_idle) (simp_all add: silent_card_def)
  have r0: "fst (main_init ready_card) \<noteq> 0"
    using main_init_fast(1) [of ready_card] by (simp add: ready_card_def)
  have r1: "fst (main_mbr ?s ready_card) = 0"
    unfolding main_mbr_def
    by (rule sd_read_sector_no_token)
       (use main_init_fast(3) [of ready_card] in \<open>simp add: ready_card_def\<close>)
  note m_init = main_init_fast [of mbr_card, unfolded mbr_card_def, simplified,
      folded mbr_card_def]
  note m_mbr = main_mbr_fast [of ?s mbr_card, OF _ m_init(2) m_init(3),
      unfolded mbr_card_def, simplified, folded mbr_card_def]
  have m2: "fst (main_vbr ?s mbr_card) = 0"
    by (rule main_vbr_rejected [OF m_mbr(2) m_mbr(3)]) simp
  note v_init = main_init_fast [of vbr_card, unfolded vbr_card_def, simplified,
      folded vbr_card_def]
  note v_mbr = main_mbr_fast [of ?s vbr_card, OF _ v_init(2) v_init(3),
      unfolded vbr_card_def, simplified, folded vbr_card_def]
  note v_vbr = main_vbr_fast [of ?s vbr_card, OF v_mbr(4) v_mbr(2) v_mbr(3), simplified]
  have v3: "fst (main_root ?s vbr_card) = 0"
    by (rule main_root_rejected [OF v_vbr(2) v_vbr(3)]) simp
  have m0: "fst (main_init mbr_card) \<noteq> 0" and m1: "fst (main_mbr ?s mbr_card) \<noteq> 0"
    using m_init(1) m_mbr(1) by simp_all
  have v0: "fst (main_init vbr_card) \<noteq> 0" and v1: "fst (main_mbr ?s vbr_card) \<noteq> 0"
    and v2: "fst (main_vbr ?s vbr_card) \<noteq> 0"
    using v_init(1) v_mbr(1) v_vbr(1) by simp_all
  have e: "uart silent_card = []" "uart ready_card = []" "uart mbr_card = []"
    by (simp_all add: silent_card_def ready_card_def mbr_card_def)
  note p1 = failure_propagation [of silent_card ?s, THEN conjunct1, rule_format, OF s0]
  note p2 = failure_propagation [of ready_card ?s, THEN conjunct2, THEN conjunct1, rule_format,
      OF conjI [OF r0 r1]]
  note p3 = failure_propagation [of mbr_card ?s, THEN conjunct2, THEN conjunct2, THEN conjunct1,
      rule_format, OF conjI [OF m0 conjI [OF m1 m2]]]
  note p4 = failure_propagation [of vbr_card ?s, THEN conjunct2, THEN conjunct2, THEN conjunct2,
      THEN conjunct1, rule_format, OF conjI [OF v0 conjI [OF v1 conjI [OF v2 v3]]]]
  note u1 = p1 [THEN conjunct2, THEN conjunct2, unfolded e append_Nil]
  note u2 = p2 [THEN conjunct2, THEN conjunct2, unfolded e append_Nil]
  note u3 = p3 [THEN conjunct2, THEN conjunct2, unfolded e append_Nil]
  note b4 = p4 [THEN conjunct1]
  show ?thesis
    by (intro conjI) (fact s0 u1 r0 r1 u2 m0 m1 m2 u3 v0 v1 v2 v3 b4)+
qed

section \<open>The response sequence is read in place\<close>

text \<open>
  What the driver does depends only on the bytes the card sends during the exchanges
  the driver makes: replacing the response sequence by one that agrees with it on those
  exchanges changes neither results nor bus activity.
\<close>

lemma advance_miso_update [simp]: "advance es (w\<lparr>miso := m\<rparr>) = (advance es w)\<lparr>miso := m\<rparr>"
  by (simp add: advance_def)











section \<open>Interface condition (CMD8)\<close>




section \<open>Numbers printed through \<open>itoa\<close>\<close>

text \<open>
  Claim C10. The size printed for a Regular record is what \<open>itoa\<close> writes for the
  32-bit size field narrowed to \<open>int\<close>, which has 16 bits on this target. The printed
  digits are the decimal numeral of the size exactly when the size is at most 32767;
  for every larger size they differ (\<open>BIG.BIN\<close> of 40000 bytes is printed with size
  \<open>-25536\<close>). \<open>main\<close> prints the root cluster number through the same conversion.
\<close>

theorem size_printed_through_int:
  fixes v :: u32
  shows "(entry ! 0 \<noteq> 0x00 \<and> entry ! 0 \<noteq> 0xE5 \<and> entry ! 11 AND 0x08 = 0 \<longrightarrow>
      (\<exists>name a b. uart (print_dir_entry entry w)
         = uart w @ lit ''Name: '' @ name @ lit '' | Attr: '' @ [a, b] @ lit '' | Size: ''
             @ butlast (itoa (ucast (le32 entry 28))) @ crlf))
   \<and> (fst (main_init w) \<noteq> 0 \<and> fst (main_mbr sector w) \<noteq> 0 \<and> fst (main_vbr sector w) \<noteq> 0 \<longrightarrow>
      (\<exists>rest. uart (main sector w)
         = uart w @ crlf @ lit ''Initializing SD Card...'' @ crlf @ lit ''SD Card OK.'' @ crlf
             @ lit ''FAT32 detected. Root Cluster: ''
             @ butlast (itoa (ucast (root_cluster
                 (snd (parse_fat32_info (fst (snd (main_vbr sector w))))))))
             @ crlf @ rest))
   \<and> (butlast (itoa (ucast v)) = dec_digits (unat v) \<longleftrightarrow> unat v \<le> 32767)"
proof (intro conjI impI)
  assume "entry ! 0 \<noteq> 0x00 \<and> entry ! 0 \<noteq> 0xE5 \<and> entry ! 11 AND 0x08 = 0"
  then have "is_regular entry"
    by (simp add: is_regular_def)
  from print_dir_entry_regular [OF this, of w]
  obtain name a b where "print_dir_entry entry w
    = w\<lparr>uart := uart w @ lit ''Name: '' @ name @ lit '' | Attr: '' @ [a, b]
          @ lit '' | Size: '' @ butlast (itoa (ucast (le32 entry 28))) @ crlf\<rparr>"
    by blast
  then have "uart (print_dir_entry entry w)
         = uart w @ lit ''Name: '' @ name @ lit '' | Attr: '' @ [a, b] @ lit '' | Size: ''
             @ butlast (itoa (ucast (le32 entry 28))) @ crlf"
    by simp
  then show "\<exists>name a b. uart (print_dir_entry entry w)
         = uart w @ lit ''Name: '' @ name @ lit '' | Attr: '' @ [a, b] @ lit '' | Size: ''
             @ butlast (itoa (ucast (le32 entry 28))) @ crlf"
    by blast
next
  assume "fst (main_init w) \<noteq> 0 \<and> fst (main_mbr sector w) \<noteq> 0 \<and> fst (main_vbr sector w) \<noteq> 0"
  then show "\<exists>rest. uart (main sector w)
         = uart w @ crlf @ lit ''Initializing SD Card...'' @ crlf @ lit ''SD Card OK.'' @ crlf
             @ lit ''FAT32 detected. Root Cluster: ''
             @ butlast (itoa (ucast (root_cluster
                 (snd (parse_fat32_info (fst (snd (main_vbr sector w))))))))
             @ crlf @ rest"
    by (intro main_root_cluster_printed) simp_all
next
  have "itoa (ucast v) = butlast (itoa (ucast v)) @ [0]"
    by (simp add: itoa_def butlast_append)
  then have "butlast (itoa (ucast v)) = dec_digits (unat v)
      \<longleftrightarrow> itoa (ucast v) = dec_digits (unat v) @ [0]"
    by (metis append_same_eq)
  then show "butlast (itoa (ucast v)) = dec_digits (unat v) \<longleftrightarrow> unat v \<le> 32767"
    by (simp only: itoa_narrow)
qed

theorem size_printed_through_int_witness:
  "big_entry ! 0 \<noteq> 0x00 \<and> big_entry ! 0 \<noteq> 0xE5 \<and> big_entry ! 11 AND 0x08 = 0
   \<and> (\<exists>name a b. uart (print_dir_entry big_entry idle_card)
         = uart idle_card @ lit ''Name: '' @ name @ lit '' | Attr: '' @ [a, b] @ lit '' | Size: ''
             @ butlast (itoa (ucast (le32 big_entry 28))) @ crlf)
   \<and> le32 big_entry 28 = 40000
   \<and> butlast (itoa (ucast (40000 :: u32))) \<noteq> dec_digits (unat (40000 :: u32))
   \<and> uart (print_dir_entry big_entry idle_card)
       = lit ''Name: BIG.BIN | Attr: 20 | Size: -25536'' @ crlf
   \<and> fst (main_init vbr_card) \<noteq> 0 \<and> fst (main_mbr (replicate 512 0) vbr_card) \<noteq> 0
   \<and> fst (main_vbr (replicate 512 0) vbr_card) \<noteq> 0
   \<and> (\<exists>rest. uart (main (replicate 512 0) vbr_card)
         = uart vbr_card @ crlf @ lit ''Initializing SD Card...'' @ crlf @ lit ''SD Card OK.'' @ crlf
             @ lit ''FAT32 detected. Root Cluster: ''
             @ butlast (itoa (ucast (root_cluster
                 (snd (parse_fat32_info (fst (snd (main_vbr (replicate 512 0) vbr_card))))))))
             @ crlf @ rest)"
proof -
  let ?s = "replicate 512 (0 :: u8)"
  have reg: "big_entry ! 0 \<noteq> 0x00 \<and> big_entry ! 0 \<noteq> 0xE5 \<and> big_entry ! 11 AND 0x08 = 0"
    unfolding big_bytes by simp
  have big: "\<not> unat (40000 :: u32) \<le> 32767"
    by simp
  have out: "uart (print_dir_entry big_entry idle_card)
       = lit ''Name: BIG.BIN | Attr: 20 | Size: -25536'' @ crlf"
    by (simp add: print_big idle_card_def)
  note v_init = main_init_fast [of vbr_card, unfolded vbr_card_def, simplified,
      folded vbr_card_def]
  note v_mbr = main_mbr_fast [of ?s vbr_card, OF _ v_init(2) v_init(3),
      unfolded vbr_card_def, simplified, folded vbr_card_def]
  note v_vbr = main_vbr_fast [of ?s vbr_card, OF v_mbr(4) v_mbr(2) v_mbr(3), simplified]
  have v0: "fst (main_init vbr_card) \<noteq> 0" and v1: "fst (main_mbr ?s vbr_card) \<noteq> 0"
    and v2: "fst (main_vbr ?s vbr_card) \<noteq> 0"
    using v_init(1) v_mbr(1) v_vbr(1) by simp_all
  note t1 = size_printed_through_int [of big_entry idle_card ?s 40000, THEN conjunct1,
      rule_format, OF reg]
  note t2 = size_printed_through_int [of big_entry vbr_card ?s 40000, THEN conjunct2,
      THEN conjunct1, rule_format, OF conjI [OF v0 conjI [OF v1 v2]]]
  note t3 = size_printed_through_int [of big_entry idle_card ?s 40000, THEN conjunct2,
      THEN conjunct2]
  have ne: "butlast (itoa (ucast (40000 :: u32))) \<noteq> dec_digits (unat (40000 :: u32))"
    using t3 big by blast
  show ?thesis
    by (intro conjI) (fact reg [THEN conjunct1] reg [THEN conjunct2, THEN conjunct1]
        reg [THEN conjunct2, THEN conjunct2] t1 le32_big_entry ne out v0 v1 v2 t2)+
qed

end
